theory Spec2Isabelle
  imports Main "HOL-Library.AList"
begin

section \<open>Values, cell references and the table model\<close>

text \<open>
  A Python \<open>str\<close> is a sequence of code points; it is modelled as a list of naturals so
  that the Korean marker text of the source and Python's whitespace classes are exact.
  \<open>lit\<close> turns an ASCII literal into such a string.
\<close>

type_synonym pystr = "nat list"

definition lit :: "string \<Rightarrow> pystr" where
  "lit s = map of_char s"

text \<open>
  The marker string of \<open>setData\<close> (lines 275 and 328 of mantra.py), an opening
  parenthesis, the Hangul text "field value none" and a closing parenthesis, by code point.
\<close>

definition FIELD_NONE :: pystr where
  "FIELD_NONE = [0x28, 0xD544, 0xB4DC, 0x20, 0xAC12, 0x20, 0xC5C6, 0xC74C, 0x29]"

text \<open>
  What a DataFrame cell, or the \<open>value\<close> argument of \<open>setData\<close>, can hold: the missing
  value (\<open>pd.NA\<close>, \<open>NaN\<close>, \<open>None\<close>), a \<open>str\<close>, or any other object (a number read by
  the loader, or Qt's null \<open>QVariant()\<close>), which the code only ever inspects through
  \<open>pd.isna\<close>, \<open>isinstance(_, str)\<close>, \<open>!=\<close> and \<open>str()\<close>. Such an object is carried with its
  \<open>str()\<close> rendering; what \<open>!=\<close> answers on it is the library's (the field \<open>ne\<close> of the
  model below), not a comparison of renderings.
\<close>

datatype pyvalue = NA | Str pystr | Obj pystr

definition pd_isna :: "pyvalue \<Rightarrow> bool" where
  "pd_isna v = (v = NA)"

fun isinstance_str :: "pyvalue \<Rightarrow> bool" where
  "isinstance_str (Str s) = True"
| "isinstance_str v = False"

fun py_str :: "pyvalue \<Rightarrow> pystr" where
  "py_str NA = lit ''<NA>''"
| "py_str (Str s) = s"
| "py_str (Obj s) = s"

definition QVariant :: pyvalue where
  "QVariant = Obj (lit ''QVariant()'')"

datatype role = DisplayRole | EditRole | OtherRole

text \<open>The exceptions that the calls into libraries raise.\<close>

datatype pyexn = ValueError | IndexError | TypeError | DecodeError | OSError | URLError | ParserError

text \<open>
  A \<open>QModelIndex\<close> is the (row, column) pair it was created for. Qt hands out a valid
  index only for a position inside the model (\<open>QAbstractTableModel.index\<close> tests
  \<open>hasIndex\<close>, the view selects existing cells only), and the source never changes the shape
  of a loaded frame while indexes or commands are alive; \<open>isValid\<close> is therefore the test
  of the position against the shape of the frame. Qt's null index, which \<open>index\<close> returns
  for a position outside the model and whose coordinates are \<open>-1\<close>, is represented by the
  position asked for: it fails \<open>isValid\<close> as the null index does, which is all that
  \<open>data\<close>, \<open>setData\<close> and the commands ask of it. Only \<open>clear_selected_cells_bulk\<close> reads
  the coordinates of indexes it has not tested; its argument is the selection of the view,
  and a null index in it is outside this model.
\<close>

datatype qindex = QModelIndex (row: nat) (column: nat)

datatype command =
    EditCellCommand qindex pyvalue pyvalue
  | DeleteCellsCommand "qindex list" "(qindex \<times> pyvalue) list"
  | PasteCellsCommand "pystr list list" qindex "(qindex \<times> pyvalue) list"
  | PasteMultipleCellsCommand "qindex list" pystr "(qindex \<times> pyvalue) list"

text \<open>
  \<open>QUndoStack\<close> is a class of the Qt library: the list of commands, the index of the next
  command to redo, and the undo limit (0 means no limit).
\<close>

record qundostack =
  commands :: "command list"
  index :: nat
  undo_limit :: nat

text \<open>
  \<open>DataFrameModel\<close>: the frame \<open>_df\<close>, the undo stack set by \<open>setUndoStack\<close> (\<open>None\<close>
  before), the flag \<open>ignore_undo\<close>, and the \<open>dataChanged\<close> signals emitted so far (top-left
  and bottom-right index of each). \<open>reentrant\<close> is a ghost counter: the number of pushes
  issued from inside a command's \<open>undo\<close> or \<open>redo\<close>.

  The frame is an object of pandas. Its shape and its cells are fields of the model, and
  so are the two operations of the library on it whose outcome the source does not fix:
  \<^item> \<open>setitem cells (r, c) value\<close> is the assignment \<open>_df.iloc[r, c] = value\<close>. A column of
    a frame has one dtype, so the assignment may store the value in that cell, convert the
    column (and with it the objects in its other rows), or raise and leave the frame as it
    was; the result is the exception raised or the cells of the frame afterwards.
  \<^item> \<open>ne a b\<close> is the comparison \<open>a != b\<close> when one of the two values is not a \<open>str\<close>
    (a number of numpy compares by value, another object may raise).

  \<open>store_cell\<close> is the assignment into a frame whose columns have the dtype \<open>object\<close>:
  the value is stored as it is in that cell, and nothing else changes.
\<close>

type_synonym frame_cells = "nat \<times> nat \<Rightarrow> pyvalue"

record model =
  nrows :: nat
  ncols :: nat
  cells :: frame_cells
  setitem :: "frame_cells \<Rightarrow> nat \<times> nat \<Rightarrow> pyvalue \<Rightarrow> pyexn + frame_cells"
  ne :: "pyvalue \<Rightarrow> pyvalue \<Rightarrow> pyexn + bool"
  undo_stack :: "qundostack option"
  ignore_undo :: bool
  emitted :: "(qindex \<times> qindex) list"
  reentrant :: nat

definition rowCount :: "model \<Rightarrow> nat" where
  "rowCount m = nrows m"

definition columnCount :: "model \<Rightarrow> nat" where
  "columnCount m = ncols m"

definition isValid :: "model \<Rightarrow> qindex \<Rightarrow> bool" where
  "isValid m i = (row i < rowCount m \<and> column i < columnCount m)"

definition model_index :: "model \<Rightarrow> nat \<Rightarrow> nat \<Rightarrow> qindex" where
  "model_index m r c = QModelIndex r c"

definition iloc :: "model \<Rightarrow> qindex \<Rightarrow> pyvalue" where
  "iloc m i = cells m (row i, column i)"

definition store_cell :: "frame_cells \<Rightarrow> nat \<times> nat \<Rightarrow> pyvalue \<Rightarrow> pyexn + frame_cells" where
  "store_cell cs p v = Inr (cs(p := v))"

definition iloc_set :: "model \<Rightarrow> qindex \<Rightarrow> pyvalue \<Rightarrow> pyexn + model" where
  "iloc_set m i v =
     (case setitem m (cells m) (row i, column i) v of
        Inl e \<Rightarrow> Inl e
      | Inr cs \<Rightarrow> Inr (m\<lparr>cells := cs\<rparr>))"

text \<open>Python's \<open>a != b\<close>: on two \<open>str\<close> it compares the texts.\<close>

definition py_ne :: "model \<Rightarrow> pyvalue \<Rightarrow> pyvalue \<Rightarrow> pyexn + bool" where
  "py_ne m a b =
     (case (a, b) of
        (Str s, Str t) \<Rightarrow> Inr (s \<noteq> t)
      | _ \<Rightarrow> ne m a b)"

definition emit_dataChanged :: "qindex \<Rightarrow> qindex \<Rightarrow> model \<Rightarrow> model" where
  "emit_dataChanged topLeft bottomRight m = m\<lparr>emitted := emitted m @ [(topLeft, bottomRight)]\<rparr>"

text \<open>\<open>DataFrameModel.data\<close> (lines 240 to 248).\<close>

definition data :: "model \<Rightarrow> qindex \<Rightarrow> role \<Rightarrow> pyvalue" where
  "data m i r =
     (if \<not> isValid m i then QVariant
      else if r = DisplayRole \<or> r = EditRole then
        (let v = iloc m i in if pd_isna v then Str [] else Str (py_str v))
      else QVariant)"

section \<open>Setting a cell\<close>

text \<open>
  \<open>DataFrameModel.setData\<close> (lines 262 to 339). The undo stack is an object handed to the
  model, so the operation \<open>push\<close> of that object is a parameter here. With the flag
  \<open>ignore_undo\<close> set, the value is assigned directly, an empty string or the marker as the
  missing value (lines 271 to 289); when the assignment raises, the handler of line 287
  returns \<open>False\<close>: the frame is as before and no \<open>dataChanged\<close> is emitted. Otherwise the
  old value is read, the new value is normalised, the two are compared (a comparison that
  raises counts as no difference, lines 310 to 312), and a difference either pushes an
  \<open>EditCellCommand\<close> (when a stack is set) or is assigned directly, with the same handler
  (lines 327 to 337).
\<close>

definition store_flagged :: "pyvalue \<Rightarrow> pyvalue" where
  "store_flagged v =
     (if isinstance_str v then
        (if v = Str [] \<or> v = Str FIELD_NONE then NA else v)
      else v)"

definition new_value_of :: "pyvalue \<Rightarrow> pyvalue" where
  "new_value_of v =
     (if pd_isna v then NA
      else if isinstance_str v then (if v \<noteq> Str [] then v else NA)
      else v)"

definition values_differ :: "model \<Rightarrow> pyvalue \<Rightarrow> pyvalue \<Rightarrow> bool" where
  "values_differ m old_value new_value =
     (if pd_isna old_value \<and> pd_isna new_value then False
      else if pd_isna old_value \<or> pd_isna new_value then True
      else (case py_ne m old_value new_value of Inl e \<Rightarrow> False | Inr b \<Rightarrow> b))"

definition store_direct :: "pyvalue \<Rightarrow> pyvalue" where
  "store_direct new_value =
     (if isinstance_str new_value \<and> (new_value = Str FIELD_NONE \<or> new_value = Str [])
      then NA else new_value)"

definition setData_via ::
  "(command \<Rightarrow> model \<Rightarrow> model) \<Rightarrow> model \<Rightarrow> qindex \<Rightarrow> pyvalue \<Rightarrow> role \<Rightarrow> model \<times> bool" where
  "setData_via push m i v r =
     (if \<not> isValid m i then (m, False)
      else if \<not> (r = DisplayRole \<or> r = EditRole) then (m, False)
      else if ignore_undo m then
        (case iloc_set m i (store_flagged v) of
           Inr m1 \<Rightarrow> (emit_dataChanged i i m1, True)
         | Inl e \<Rightarrow> (m, False))
      else
        (let old_value = iloc m i;
             new_value = new_value_of v
         in if values_differ m old_value new_value then
              (if undo_stack m \<noteq> None \<and> \<not> ignore_undo m then
                 (push (EditCellCommand i old_value new_value) m, True)
               else
                 (case iloc_set m i (store_direct new_value) of
                    Inr m1 \<Rightarrow> (emit_dataChanged i i m1, True)
                  | Inl e \<Rightarrow> (m, False)))
            else (m, False)))"

section \<open>Commands\<close>

text \<open>
  Python's \<open>enumerate\<close>, and a dict built by successive assignments (a key keeps the
  position of its first insertion and takes the last value).
\<close>

definition enumerate_from0 :: "'a list \<Rightarrow> (nat \<times> 'a) list" where
  "enumerate_from0 xs = zip [0..<length xs] xs"

definition dict_of :: "('k \<times> 'v) list \<Rightarrow> ('k \<times> 'v) list" where
  "dict_of kvs = fold (\<lambda>(k, v) d. AList.update k v d) kvs []"

text \<open>The constructors capture the old values through \<open>data\<close> (lines 140, 163 to 167, 191).\<close>

definition DeleteCellsCommand_init :: "model \<Rightarrow> qindex list \<Rightarrow> command" where
  "DeleteCellsCommand_init m selected_indexes =
     DeleteCellsCommand selected_indexes
       (dict_of (map (\<lambda>i. (i, data m i DisplayRole)) selected_indexes))"

definition paste_targets :: "model \<Rightarrow> pystr list list \<Rightarrow> qindex \<Rightarrow> (qindex \<times> pystr) list" where
  "paste_targets m paste_data start_index =
     concat (map (\<lambda>(r, row_values).
        map (\<lambda>(c, v). (model_index m (row start_index + r) (column start_index + c), v))
            (enumerate_from0 row_values))
      (enumerate_from0 paste_data))"

definition PasteCellsCommand_init :: "model \<Rightarrow> pystr list list \<Rightarrow> qindex \<Rightarrow> command" where
  "PasteCellsCommand_init m paste_data start_index =
     PasteCellsCommand paste_data start_index
       (dict_of (map (\<lambda>(i, v). (i, data m i DisplayRole))
                     (filter (\<lambda>(i, v). isValid m i) (paste_targets m paste_data start_index))))"

definition PasteMultipleCellsCommand_init :: "model \<Rightarrow> qindex list \<Rightarrow> pystr \<Rightarrow> command" where
  "PasteMultipleCellsCommand_init m indexes v =
     PasteMultipleCellsCommand indexes v
       (dict_of (map (\<lambda>i. (i, data m i DisplayRole)) indexes))"

text \<open>
  \<open>undo\<close> and \<open>redo\<close> of the four commands (lines 123 to 131, 142 to 152, 169 to 182,
  193 to 203): set the flag, call \<open>setData\<close> for every cell, clear the flag. The \<open>push\<close>
  that those calls of \<open>setData\<close> would reach is again a parameter.
\<close>

definition set_cells ::
  "(command \<Rightarrow> model \<Rightarrow> model) \<Rightarrow> (qindex \<times> pyvalue) list \<Rightarrow> model \<Rightarrow> model" where
  "set_cells push ivs m = fold (\<lambda>(i, v) s. fst (setData_via push s i v EditRole)) ivs m"

fun cmd_undo :: "(command \<Rightarrow> model \<Rightarrow> model) \<Rightarrow> command \<Rightarrow> model \<Rightarrow> model" where
  "cmd_undo push (EditCellCommand i old_value new_value) m =
     (let m1 = m\<lparr>ignore_undo := True\<rparr>;
          m2 = fst (setData_via push m1 i old_value EditRole)
      in m2\<lparr>ignore_undo := False\<rparr>)"
| "cmd_undo push (DeleteCellsCommand selected_indexes old_values) m =
     (let m1 = m\<lparr>ignore_undo := True\<rparr>;
          m2 = set_cells push old_values m1
      in m2\<lparr>ignore_undo := False\<rparr>)"
| "cmd_undo push (PasteCellsCommand paste_data start_index old_values) m =
     (let m1 = m\<lparr>ignore_undo := True\<rparr>;
          m2 = set_cells push old_values m1
      in m2\<lparr>ignore_undo := False\<rparr>)"
| "cmd_undo push (PasteMultipleCellsCommand indexes v old_values) m =
     (let m1 = m\<lparr>ignore_undo := True\<rparr>;
          m2 = set_cells push old_values m1
      in m2\<lparr>ignore_undo := False\<rparr>)"

fun cmd_redo :: "(command \<Rightarrow> model \<Rightarrow> model) \<Rightarrow> command \<Rightarrow> model \<Rightarrow> model" where
  "cmd_redo push (EditCellCommand i old_value new_value) m =
     (let m1 = m\<lparr>ignore_undo := True\<rparr>;
          m2 = fst (setData_via push m1 i new_value EditRole)
      in m2\<lparr>ignore_undo := False\<rparr>)"
| "cmd_redo push (DeleteCellsCommand selected_indexes old_values) m =
     (let m1 = m\<lparr>ignore_undo := True\<rparr>;
          m2 = set_cells push (map (\<lambda>i. (i, Str [])) selected_indexes) m1
      in m2\<lparr>ignore_undo := False\<rparr>)"
| "cmd_redo push (PasteCellsCommand paste_data start_index old_values) m =
     (let m1 = m\<lparr>ignore_undo := True\<rparr>;
          m2 = fold (\<lambda>(i, v) s.
                  if isValid s i then fst (setData_via push s i (Str v) EditRole) else s)
                (paste_targets m1 paste_data start_index) m1
      in m2\<lparr>ignore_undo := False\<rparr>)"
| "cmd_redo push (PasteMultipleCellsCommand indexes v old_values) m =
     (let m1 = m\<lparr>ignore_undo := True\<rparr>;
          m2 = set_cells push (map (\<lambda>i. (i, Str v)) indexes) m1
      in m2\<lparr>ignore_undo := False\<rparr>)"

section \<open>The undo stack\<close>

text \<open>
  \<open>QUndoStack\<close> is Qt code, not code of the repository; \<open>push\<close>, \<open>undo\<close> and \<open>redo\<close>
  follow Qt's documentation of the class. \<open>push\<close> executes the command by calling its
  \<open>redo\<close>, deletes the commands after the index, appends the command and, when the limit
  is exceeded, deletes commands from the bottom of the stack. \<open>undo\<close> does nothing at
  index 0 and otherwise calls \<open>undo\<close> of the command below the index; \<open>redo\<close> does nothing
  at the end and otherwise calls \<open>redo\<close> of the command at the index.

  A \<open>setData\<close> called from inside a command would reach \<open>push\<close> again. That inner push is
  \<open>reentrant_push\<close>, which only counts itself in the ghost counter; \<open>cmd_push_free\<close> below
  shows that no command ever calls it, so that cutting the recursion there loses nothing.
\<close>

definition reentrant_push :: "command \<Rightarrow> model \<Rightarrow> model" where
  "reentrant_push c m = m\<lparr>reentrant := Suc (reentrant m)\<rparr>"

definition record_command :: "command \<Rightarrow> qundostack \<Rightarrow> qundostack" where
  "record_command c st =
     (let cmds = take (index st) (commands st) @ [c];
          del_count = (if undo_limit st = 0 \<or> length cmds \<le> undo_limit st then 0
                       else length cmds - undo_limit st)
      in st\<lparr>commands := drop del_count cmds, index := index st - del_count + 1\<rparr>)"

definition QUndoStack_push :: "command \<Rightarrow> model \<Rightarrow> model" where
  "QUndoStack_push c m =
     (let m1 = cmd_redo reentrant_push c m
      in m1\<lparr>undo_stack := map_option (record_command c) (undo_stack m1)\<rparr>)"

definition QUndoStack_undo :: "model \<Rightarrow> model" where
  "QUndoStack_undo m =
     (case undo_stack m of
        None \<Rightarrow> m
      | Some st \<Rightarrow>
          if index st = 0 \<or> length (commands st) < index st then m
          else
            (let idx = index st - 1;
                 m1 = cmd_undo reentrant_push (commands st ! idx) m
             in m1\<lparr>undo_stack := map_option (\<lambda>s. s\<lparr>index := idx\<rparr>) (undo_stack m1)\<rparr>))"

definition QUndoStack_redo :: "model \<Rightarrow> model" where
  "QUndoStack_redo m =
     (case undo_stack m of
        None \<Rightarrow> m
      | Some st \<Rightarrow>
          if length (commands st) \<le> index st then m
          else
            (let m1 = cmd_redo reentrant_push (commands st ! index st) m
             in m1\<lparr>undo_stack := map_option (\<lambda>s. s\<lparr>index := index st + 1\<rparr>) (undo_stack m1)\<rparr>))"

text \<open>\<open>setData\<close> as the application runs it: the stack of the model is a \<open>QUndoStack\<close>.\<close>

definition setData :: "model \<Rightarrow> qindex \<Rightarrow> pyvalue \<Rightarrow> role \<Rightarrow> model \<times> bool" where
  "setData m i v r = setData_via QUndoStack_push m i v r"


section \<open>Clearing and pasting\<close>

text \<open>
  \<open>DataFrameModel.clear_selected_cells_bulk\<close> (lines 356 to 398): the selected cells are
  grouped by row in the order the rows first appear, the columns of a row are sorted and cut
  into runs of consecutive columns, every cell of a run inside the frame is set to the empty
  string, and one \<open>dataChanged\<close> is emitted for each run. The whole body is in one \<open>try\<close>:
  an assignment that raises ends the method, with the cells cleared so far left cleared.
  The state of the loops is the model together with the exception raised, if any.
\<close>

definition cells_by_row :: "qindex list \<Rightarrow> (nat \<times> nat list) list" where
  "cells_by_row selected_indexes =
     fold (\<lambda>i d. AList.update (row i)
                    ((case map_of d (row i) of None \<Rightarrow> [] | Some cols \<Rightarrow> cols) @ [column i]) d)
          selected_indexes []"

fun col_ranges :: "nat \<Rightarrow> nat \<Rightarrow> nat list \<Rightarrow> (nat \<times> nat) list" where
  "col_ranges start end [] = [(start, end)]"
| "col_ranges start end (col # cols) =
     (if col = end + 1 then col_ranges start col cols
      else (start, end) # col_ranges col col cols)"

definition clear_cell :: "nat \<Rightarrow> nat \<Rightarrow> model \<times> pyexn option \<Rightarrow> model \<times> pyexn option" where
  "clear_cell r col sx =
     (case snd sx of
        Some e \<Rightarrow> sx
      | None \<Rightarrow>
          (if r < rowCount (fst sx) \<and> col < columnCount (fst sx) then
             (case iloc_set (fst sx) (QModelIndex r col) (Str []) of
                Inr s1 \<Rightarrow> (s1, None)
              | Inl e \<Rightarrow> (fst sx, Some e))
           else sx))"

definition clear_range :: "nat \<Rightarrow> nat \<times> nat \<Rightarrow> model \<times> pyexn option \<Rightarrow> model \<times> pyexn option" where
  "clear_range r rng sx =
     (let sx1 = fold (clear_cell r) [fst rng..<snd rng + 1] sx
      in case snd sx1 of
           Some e \<Rightarrow> sx1
         | None \<Rightarrow>
             (emit_dataChanged (model_index (fst sx1) r (fst rng))
                               (model_index (fst sx1) r (snd rng)) (fst sx1), None))"

definition clear_selected_cells_bulk :: "model \<Rightarrow> qindex list \<Rightarrow> model" where
  "clear_selected_cells_bulk m selected_indexes =
     (if selected_indexes = [] then m
      else fst (fold (\<lambda>(r, cols) sx.
                   (case sort cols of
                      [] \<Rightarrow> sx
                    | c0 # rest \<Rightarrow> fold (clear_range r) (col_ranges c0 c0 rest) sx))
                (cells_by_row selected_indexes) (m, None)))"

text \<open>\<open>CSVMatcherApp.clear_selected_cells\<close> (lines 2298 to 2311).\<close>

definition clear_selected_cells :: "model \<Rightarrow> qindex list \<Rightarrow> model" where
  "clear_selected_cells m selected_indexes =
     (if undo_stack m \<noteq> None
      then QUndoStack_push (DeleteCellsCommand_init m selected_indexes) m
      else clear_selected_cells_bulk m selected_indexes)"

text \<open>
  Python's \<open>str.isspace\<close> on a code point, \<open>str.strip()\<close>, and \<open>str.split(sep)\<close> for a
  separator of one character.
\<close>

definition is_space :: "nat \<Rightarrow> bool" where
  "is_space c =
     ((0x09 \<le> c \<and> c \<le> 0x0D) \<or> (0x1C \<le> c \<and> c \<le> 0x20) \<or> c = 0x85 \<or> c = 0xA0
      \<or> c = 0x1680 \<or> (0x2000 \<le> c \<and> c \<le> 0x200A) \<or> c = 0x2028 \<or> c = 0x2029
      \<or> c = 0x202F \<or> c = 0x205F \<or> c = 0x3000)"

definition py_strip :: "pystr \<Rightarrow> pystr" where
  "py_strip s = rev (dropWhile is_space (rev (dropWhile is_space s)))"

fun py_split :: "nat \<Rightarrow> pystr \<Rightarrow> pystr list" where
  "py_split sep [] = [[]]"
| "py_split sep (x # xs) =
     (if x = sep then [] # py_split sep xs
      else (case py_split sep xs of [] \<Rightarrow> [[x]] | w # ws \<Rightarrow> (x # w) # ws))"

text \<open>
  \<open>CSVMatcherApp.paste_clipboard_data\<close> (lines 2313 to 2352), with the text of the
  clipboard as an argument. The outcome tells the message box shown, if any; an empty
  selection with a payload of several values raises \<open>IndexError\<close> at
  \<open>selected_indexes[0]\<close>, which the handler reports.
\<close>

datatype paste_outcome = Pasted | NoClipboardData | InvalidPasteData | PasteFailed

definition data_matrix :: "pystr \<Rightarrow> pystr list list" where
  "data_matrix clipboard_text =
     map (py_split 0x09)
         (filter (\<lambda>row_text. py_strip row_text \<noteq> []) (py_split 0x0A (py_strip clipboard_text)))"

definition push_or_redo :: "command \<Rightarrow> model \<Rightarrow> model" where
  "push_or_redo c m =
     (if undo_stack m \<noteq> None then QUndoStack_push c m else cmd_redo reentrant_push c m)"

definition paste_clipboard_data :: "model \<Rightarrow> pystr \<Rightarrow> qindex list \<Rightarrow> model \<times> paste_outcome" where
  "paste_clipboard_data m clipboard_text selected_indexes =
     (if clipboard_text = [] then (m, NoClipboardData)
      else
        (let dm = data_matrix clipboard_text
         in if dm = [] then (m, InvalidPasteData)
            else if length dm = 1 \<and> length (dm ! 0) = 1 then
              (push_or_redo (PasteMultipleCellsCommand_init m selected_indexes (dm ! 0 ! 0)) m, Pasted)
            else
              (case selected_indexes of
                 [] \<Rightarrow> (m, PasteFailed)
               | start_index # _ \<Rightarrow>
                   (push_or_redo
                      (PasteCellsCommand_init m dm
                         (model_index m (row start_index) (column start_index))) m,
                    Pasted))))"

section \<open>The image pipeline\<close>

text \<open>
  \<open>ImageProcessor.run\<close> (lines 644 to 749) calls the HTML parser, the URL and path
  functions of the standard library, the clock, the file system and the network. Those are
  the fields of \<open>host\<close>; a call that can raise returns the exception on the left.
  \<open>find_all_img\<close> gives the \<open>src\<close> attribute (\<open>img.get('src', '')\<close>) of every \<open>img\<close>
  element of a text, \<open>soup_str\<close> the text of the document once those attributes have the
  given values. \<open>percent i total\<close> is \<open>int((i / total) * 100)\<close>, which Python computes in
  floating point.
\<close>

record host =
  find_all_img :: "pystr \<Rightarrow> pyexn + pystr list"
  soup_str :: "pystr \<Rightarrow> pystr list \<Rightarrow> pystr"
  urlparse :: "pystr \<Rightarrow> pyexn + (pystr \<times> pystr)"
  basename :: "pystr \<Rightarrow> pystr"
  splitext_ext :: "pystr \<Rightarrow> pystr"
  path_join :: "pystr \<Rightarrow> pystr \<Rightarrow> pystr"
  time_ms :: "qindex \<Rightarrow> nat \<Rightarrow> nat"
  b64decode_write :: "pystr \<Rightarrow> pystr \<Rightarrow> pyexn option"
  urlretrieve :: "pystr \<Rightarrow> pystr \<Rightarrow> pyexn option"
  percent :: "nat \<Rightarrow> nat \<Rightarrow> nat"

record processor =
  new_path :: pystr
  download_images :: bool
  download_folder :: pystr
  base64_download_folder :: pystr

datatype logmsg =
    Base64Saved qindex pystr
  | SrcChanged qindex pystr pystr
  | Base64Failed qindex pyexn
  | SchemeAdded pystr
  | Downloaded qindex pystr
  | ImageFailed qindex pyexn
  | CellFailed qindex pyexn

datatype event =
    Progress nat
  | Log logmsg
  | Error logmsg
  | UpdateCell qindex pystr
  | Finished

function str_nat :: "nat \<Rightarrow> pystr" where
  "str_nat n = (if n < 10 then [0x30 + n] else str_nat (n div 10) @ [0x30 + n mod 10])"
  by pat_completeness auto
termination
  by (relation "measure id") auto

declare str_nat.simps [simp del]

definition startswith :: "pystr \<Rightarrow> pystr \<Rightarrow> bool" where
  "startswith s p = (take (length p) s = p)"

fun split_once :: "nat \<Rightarrow> pystr \<Rightarrow> (pystr \<times> pystr) option" where
  "split_once sep [] = None"
| "split_once sep (x # xs) =
     (if x = sep then Some ([], xs)
      else (case split_once sep xs of None \<Rightarrow> None | Some (a, b) \<Rightarrow> Some (x # a, b)))"

definition replace_backslash :: "pystr \<Rightarrow> pystr" where
  "replace_backslash s = map (\<lambda>c. if c = 0x5C then 0x2F else c) s"

text \<open>
  One \<open>img\<close> element with a \<open>data:image\<close> source (lines 664 to 695). The result is the
  value of the \<open>src\<close> attribute afterwards and the events emitted.
\<close>

definition process_base64 ::
  "host \<Rightarrow> processor \<Rightarrow> qindex \<Rightarrow> nat \<Rightarrow> pystr \<Rightarrow> pystr \<times> event list" where
  "process_base64 h p idx k src =
     (case split_once 0x2C src of
        None \<Rightarrow> (src, [Log (Base64Failed idx ValueError), Error (Base64Failed idx ValueError)])
      | Some (header, encoded) \<Rightarrow>
          (case py_split 0x2F header of
             a # b # rest \<Rightarrow>
               (let file_ext = (case py_split 0x3B b of [] \<Rightarrow> [] | w # ws \<Rightarrow> w);
                    timestamp = time_ms h idx k;
                    file_name0 = lit ''img_'' @ str_nat (row idx) @ lit ''_'' @ str_nat (column idx)
                                 @ lit ''_'' @ str_nat timestamp @ lit ''.'' @ file_ext;
                    file_name = (if splitext_ext h file_name0 = [] then file_name0 @ lit ''.jpg''
                                 else file_name0);
                    file_path = path_join h (base64_download_folder p) file_name
                in (case b64decode_write h encoded file_path of
                      Some e \<Rightarrow> (src, [Log (Base64Failed idx e), Error (Base64Failed idx e)])
                    | None \<Rightarrow>
                        (let new_src = replace_backslash (path_join h (new_path p) file_name)
                         in (new_src, [Log (Base64Saved idx file_path),
                                       Log (SrcChanged idx src new_src)]))))
           | _ \<Rightarrow> (src, [Log (Base64Failed idx IndexError), Error (Base64Failed idx IndexError)])))"

text \<open>One \<open>img\<close> element with any other source, a URL (lines 696 to 731).\<close>

definition process_url ::
  "host \<Rightarrow> processor \<Rightarrow> qindex \<Rightarrow> pystr \<Rightarrow> pystr \<times> event list" where
  "process_url h p idx src0 =
     (case urlparse h src0 of
        Inl e \<Rightarrow> (src0, [Log (ImageFailed idx e), Error (ImageFailed idx e)])
      | Inr (scheme, path0) \<Rightarrow>
          (let src = (if scheme = [] then lit ''https:'' @ src0 else src0);
               ev1 = (if scheme = [] then [Log (SchemeAdded src)] else [])
           in (case urlparse h src of
                 Inl e \<Rightarrow> (src0, ev1 @ [Log (ImageFailed idx e), Error (ImageFailed idx e)])
               | Inr (scheme1, path1) \<Rightarrow>
                   (let file_name0 = basename h path1
                    in if file_name0 = [] then (src0, ev1)
                       else
                         (let file_name = (if splitext_ext h file_name0 = []
                                           then file_name0 @ lit ''.jpg'' else file_name0);
                              image_path = path_join h (download_folder p) file_name;
                              fetched = (if download_images p then urlretrieve h src image_path
                                         else None)
                          in (case fetched of
                                Some e \<Rightarrow>
                                  (src0, ev1 @ [Log (ImageFailed idx e), Error (ImageFailed idx e)])
                              | None \<Rightarrow>
                                  (let ev2 = (if download_images p
                                              then [Log (Downloaded idx image_path)] else []);
                                       new_src = replace_backslash
                                                   (path_join h (new_path p) file_name)
                                   in (new_src,
                                       ev1 @ ev2 @ [Log (SrcChanged idx src new_src)]))))))))"

definition process_img ::
  "host \<Rightarrow> processor \<Rightarrow> qindex \<Rightarrow> nat \<Rightarrow> pystr \<Rightarrow> pystr \<times> event list" where
  "process_img h p idx k src =
     (if startswith src (lit ''data:image'') then process_base64 h p idx k src
      else process_url h p idx src)"

text \<open>
  One cell (the body of the loop, lines 651 to 747): an empty cell and a cell without
  \<open>img\<close> elements are left by \<open>continue\<close>; otherwise every image is processed, the new
  text is emitted as a cell update and then the progress. An exception outside the
  per-image handlers is logged and reported, and the loop goes on.
\<close>

definition process_cell ::
  "host \<Rightarrow> processor \<Rightarrow> model \<Rightarrow> nat \<Rightarrow> nat \<Rightarrow> qindex \<Rightarrow> event list" where
  "process_cell h p m i total_cells idx =
     (case data m idx DisplayRole of
        Str current_data \<Rightarrow>
          (if current_data = [] then []
           else
             (case find_all_img h current_data of
                Inl e \<Rightarrow> [Log (CellFailed idx e), Error (CellFailed idx e)]
              | Inr imgs \<Rightarrow>
                  (if imgs = [] then []
                   else
                     (let results = map (\<lambda>(k, src). process_img h p idx k src)
                                        (enumerate_from0 imgs)
                      in concat (map snd results)
                         @ [UpdateCell idx (soup_str h current_data (map fst results)),
                            Progress (percent h i total_cells)]))))
      | other \<Rightarrow> [Log (CellFailed idx TypeError), Error (CellFailed idx TypeError)])"

definition ImageProcessor_run :: "host \<Rightarrow> processor \<Rightarrow> model \<Rightarrow> qindex list \<Rightarrow> event list" where
  "ImageProcessor_run h p m selected_indexes =
     (let total_cells = length selected_indexes
      in if total_cells = 0 then [Progress 100, Finished]
         else concat (map (\<lambda>(i, idx). process_cell h p m i total_cells idx)
                          (zip [1..<total_cells + 1] selected_indexes))
              @ [Finished])"

text \<open>
  \<open>CSVMatcherApp.handle_update_cell\<close> (lines 2230 to 2234) applies a cell update through
  \<open>setData\<close>; \<open>process_images\<close> is a run of the worker followed by the delivery of its
  cell updates, in order.
\<close>

definition handle_update_cell :: "qindex \<Rightarrow> pystr \<Rightarrow> model \<Rightarrow> model" where
  "handle_update_cell idx new_data m = fst (setData m idx (Str new_data) EditRole)"

definition deliver :: "event list \<Rightarrow> model \<Rightarrow> model" where
  "deliver evs m =
     fold (\<lambda>e s. case e of UpdateCell idx new_data \<Rightarrow> handle_update_cell idx new_data s | _ \<Rightarrow> s)
          evs m"

definition process_images ::
  "host \<Rightarrow> processor \<Rightarrow> model \<Rightarrow> qindex list \<Rightarrow> event list \<times> model" where
  "process_images h p m selected_indexes =
     (let evs = ImageProcessor_run h p m selected_indexes in (evs, deliver evs m))"

section \<open>Auxiliary notions for the proofs\<close>

text \<open>
  What \<open>setData\<close> does to the model while the flag is set (one write, which leaves the
  model as it is when the assignment raises), and a sequence of such writes.
\<close>

definition write_cell :: "model \<Rightarrow> qindex \<Rightarrow> pyvalue \<Rightarrow> model" where
  "write_cell m i v =
     (if isValid m i then
        (case iloc_set m i (store_flagged v) of
           Inr m1 \<Rightarrow> emit_dataChanged i i m1
         | Inl e \<Rightarrow> m)
      else m)"

definition write_all :: "(qindex \<times> pyvalue) list \<Rightarrow> model \<Rightarrow> model" where
  "write_all ivs m = fold (\<lambda>(i, v) s. write_cell s i v) ivs m"

text \<open>
  The frames of the theorems about cell values. A value is a text value when it is a
  \<open>str\<close> or the missing value. A frame stores texts when the assignment of a text value
  stores it in that cell and changes nothing else, as it does in a column that holds text
  (of dtype \<open>object\<close> or \<open>str\<close>); nothing is asked of the assignment of any other value.
  A text frame stores texts and holds text values only.
\<close>

fun text_value :: "pyvalue \<Rightarrow> bool" where
  "text_value NA = True"
| "text_value (Str s) = True"
| "text_value (Obj s) = False"

definition stores_text :: "model \<Rightarrow> bool" where
  "stores_text m \<longleftrightarrow> (\<forall>cs p v. text_value v \<longrightarrow> setitem m cs p v = store_cell cs p v)"

definition text_frame :: "model \<Rightarrow> bool" where
  "text_frame m \<longleftrightarrow> stores_text m \<and> (\<forall>p. text_value (cells m p))"

text \<open>
  A small state for the examples: a text frame of one row and three columns holding the
  empty string, the marker and the text \<open>a\<close>; an empty undo stack with the limit of 50
  that \<open>CSVMatcherApp.__init__\<close> sets. (The comparison of values that are not text is
  never reached on a frame of texts.)
\<close>

definition table0 :: model where
  "table0 =
     \<lparr>nrows = 1, ncols = 3,
      cells = (\<lambda>p. if p = (0, 0) then Str [] else if p = (0, 1) then Str FIELD_NONE
                    else if p = (0, 2) then Str (lit ''a'') else NA),
      setitem = store_cell, ne = (\<lambda>a b. Inr (a \<noteq> b)),
      undo_stack = Some \<lparr>commands = [], index = 0, undo_limit = 50\<rparr>,
      ignore_undo = False, emitted = [], reentrant = 0\<rparr>"

text \<open>
  A host for the examples: the text \<open><img src=http://h/a.png>\<close> holds one image, the
  library functions answer as Python's do on that address, every download fails, and the
  percentage is the exact one.
\<close>

definition host0 :: host where
  "host0 =
     \<lparr>find_all_img = (\<lambda>s. if s = lit ''<img src=http://h/a.png>'' then Inr [lit ''http://h/a.png'']
                           else Inr []),
      soup_str = (\<lambda>s srcs. concat (map (\<lambda>x. lit ''<img src='' @ [0x22] @ x @ [0x22] @ lit ''/>'') srcs)),
      urlparse = (\<lambda>u. if u = lit ''http://h/a.png'' then Inr (lit ''http'', lit ''/a.png'')
                       else Inl ValueError),
      basename = (\<lambda>path. if path = lit ''/a.png'' then lit ''a.png'' else []),
      splitext_ext = (\<lambda>f. if f = lit ''a.png'' then lit ''.png'' else []),
      path_join = (\<lambda>a b. a @ lit ''/'' @ b),
      time_ms = (\<lambda>i k. 0),
      b64decode_write = (\<lambda>d f. None),
      urlretrieve = (\<lambda>u f. Some URLError),
      percent = (\<lambda>i n. i * 100 div n)\<rparr>"

definition processor0 :: processor where
  "processor0 = \<lparr>new_path = lit ''img'', download_images = True,
                  download_folder = lit ''dl'', base64_download_folder = lit ''b64''\<rparr>"

text \<open>
  A state whose first and third cell hold the text \<open><img src=http://h/a.png>\<close> and whose
  second cell is missing.
\<close>

definition table1 :: model where
  "table1 =
     \<lparr>nrows = 1, ncols = 3,
      cells = (\<lambda>p. if p = (0, 0) \<or> p = (0, 2) then Str (lit ''<img src=http://h/a.png>'') else NA),
      setitem = store_cell, ne = (\<lambda>a b. Inr (a \<noteq> b)),
      undo_stack = Some \<lparr>commands = [], index = 0, undo_limit = 50\<rparr>,
      ignore_undo = False, emitted = [], reentrant = 0\<rparr>"

text \<open>
  The progress values among the events of a run, and the test that a cell comes through
  the two \<open>continue\<close> guards and the cell-level handler: it holds a non-empty text in which
  the parser finds at least one image.
\<close>

definition progress_values :: "event list \<Rightarrow> nat list" where
  "progress_values evs = concat (map (\<lambda>e. case e of Progress v \<Rightarrow> [v] | _ \<Rightarrow> []) evs)"

definition yields_update :: "host \<Rightarrow> model \<Rightarrow> qindex \<Rightarrow> bool" where
  "yields_update h m idx =
     (case data m idx DisplayRole of
        Str t \<Rightarrow> (if t = [] then False
                   else (case find_all_img h t of Inl e \<Rightarrow> False | Inr imgs \<Rightarrow> imgs \<noteq> []))
      | _ \<Rightarrow> False)"

text \<open>The cells for which a run emits an update, in order.\<close>

definition updated_cells :: "event list \<Rightarrow> qindex list" where
  "updated_cells evs = concat (map (\<lambda>e. case e of UpdateCell idx t \<Rightarrow> [idx] | _ \<Rightarrow> []) evs)"

text \<open>The events of one image are log and error messages only.\<close>

definition only_messages :: "event list \<Rightarrow> bool" where
  "only_messages evs = list_all (\<lambda>e. case e of Log l \<Rightarrow> True | Error l \<Rightarrow> True | _ \<Rightarrow> False) evs"

text \<open>
  The cells of a block of values anchored at a start index: whether an index lies in the
  block, and the value of the block there.
\<close>

definition in_block :: "pystr list list \<Rightarrow> qindex \<Rightarrow> qindex \<Rightarrow> bool" where
  "in_block paste_data start_index j =
     (row start_index \<le> row j \<and> column start_index \<le> column j
      \<and> row j - row start_index < length paste_data
      \<and> column j - column start_index < length (paste_data ! (row j - row start_index)))"

definition block_value :: "pystr list list \<Rightarrow> qindex \<Rightarrow> qindex \<Rightarrow> pystr" where
  "block_value paste_data start_index j =
     paste_data ! (row j - row start_index) ! (column j - column start_index)"

text \<open>A table of three rows and three columns, every cell holding the text \<open>a\<close>.\<close>

definition table3 :: model where
  "table3 =
     \<lparr>nrows = 3, ncols = 3, cells = (\<lambda>p. Str (lit ''a'')),
      setitem = store_cell, ne = (\<lambda>a b. Inr (a \<noteq> b)),
      undo_stack = Some \<lparr>commands = [], index = 0, undo_limit = 50\<rparr>,
      ignore_undo = False, emitted = [], reentrant = 0\<rparr>"

text \<open>A command redone and undone \<open>k\<close> times in a row.\<close>

definition rounds :: "command \<Rightarrow> nat \<Rightarrow> model \<Rightarrow> model" where
  "rounds c k m = ((cmd_undo reentrant_push c \<circ> cmd_redo reentrant_push c) ^^ k) m"

text \<open>
  A list of commands redone in order and undone in reverse order, as a run of redos or
  undos of the stack does; a sequence of cell edits through \<open>setData\<close>.
\<close>

definition redo_all :: "command list \<Rightarrow> model \<Rightarrow> model" where
  "redo_all cs m = fold (cmd_redo reentrant_push) cs m"

definition undo_all :: "command list \<Rightarrow> model \<Rightarrow> model" where
  "undo_all cs m = fold (cmd_undo reentrant_push) (rev cs) m"

definition edit_cells :: "(qindex \<times> pyvalue) list \<Rightarrow> model \<Rightarrow> model" where
  "edit_cells es m = fold (\<lambda>(i, v) s. fst (setData s i v EditRole)) es m"

text \<open>
  The commands that \<open>setData\<close> builds on a text frame are single-cell edits between
  text values. The targets of a list of commands are the cells that its edits write; a
  history is replayable when the frame is a text frame, the history is at its top and
  holds such edits only, and redoing any suffix of it leaves every cell as it is.
\<close>

fun is_edit :: "command \<Rightarrow> bool" where
  "is_edit (EditCellCommand i old new) = (text_value old \<and> text_value new)"
| "is_edit c = False"

definition targets :: "(qindex \<Rightarrow> bool) \<Rightarrow> command list \<Rightarrow> qindex set" where
  "targets V cs = {i. V i \<and> (\<exists>old new. EditCellCommand i old new \<in> set cs)}"

definition replayable :: "model \<Rightarrow> bool" where
  "replayable m \<longleftrightarrow>
     text_frame m \<and> \<not> ignore_undo m \<and>
     (\<exists>st. undo_stack m = Some st \<and> index st = length (commands st)
        \<and> (\<forall>c \<in> set (commands st). is_edit c)
        \<and> (\<forall>k j. iloc (redo_all (drop k (commands st)) m) j = iloc m j))"

section \<open>Calls of \<open>setData\<close> under the flag\<close>

lemma setData_via_flagged:
  "ignore_undo m \<Longrightarrow> fst (setData_via push m i v EditRole) = write_cell m i v"
  by (simp add: setData_via_def write_cell_def split: sum.splits)

lemma write_cell_fields [simp]:
  "ignore_undo (write_cell m i v) = ignore_undo m"
  "nrows (write_cell m i v) = nrows m"
  "ncols (write_cell m i v) = ncols m"
  "undo_stack (write_cell m i v) = undo_stack m"
  "reentrant (write_cell m i v) = reentrant m"
  "setitem (write_cell m i v) = setitem m"
  "ne (write_cell m i v) = ne m"
  by (auto simp add: write_cell_def emit_dataChanged_def iloc_set_def split: sum.splits)

lemma write_cell_invalid: "\<not> isValid m i \<Longrightarrow> write_cell m i v = m"
  by (simp add: write_cell_def)

lemma isValid_write_cell [simp]: "isValid (write_cell m i v) j = isValid m j"
  by (simp add: isValid_def rowCount_def columnCount_def)

lemma write_all_Nil [simp]: "write_all [] m = m"
  by (simp add: write_all_def)

lemma write_all_Cons [simp]:
  "write_all (a # ivs) m = write_all ivs (write_cell m (fst a) (snd a))"
  by (simp add: write_all_def case_prod_beta)

lemma write_all_flag [simp]: "ignore_undo (write_all ivs m) = ignore_undo m"
  by (induction ivs arbitrary: m) simp_all

lemma write_all_nrows [simp]: "nrows (write_all ivs m) = nrows m"
  by (induction ivs arbitrary: m) simp_all

lemma write_all_ncols [simp]: "ncols (write_all ivs m) = ncols m"
  by (induction ivs arbitrary: m) simp_all

lemma write_all_stack [simp]: "undo_stack (write_all ivs m) = undo_stack m"
  by (induction ivs arbitrary: m) simp_all

lemma write_all_reentrant [simp]: "reentrant (write_all ivs m) = reentrant m"
  by (induction ivs arbitrary: m) simp_all

lemma write_all_setitem [simp]: "setitem (write_all ivs m) = setitem m"
  by (induction ivs arbitrary: m) simp_all

lemma write_all_ne [simp]: "ne (write_all ivs m) = ne m"
  by (induction ivs arbitrary: m) simp_all

lemma stores_text_write [simp]:
  "stores_text (m\<lparr>ignore_undo := b\<rparr>) = stores_text m"
  "stores_text (m\<lparr>undo_stack := s\<rparr>) = stores_text m"
  "stores_text (write_cell m i v) = stores_text m"
  "stores_text (write_all ivs m) = stores_text m"
  by (simp_all add: stores_text_def)

lemma text_value_store_flagged [simp]: "text_value v \<Longrightarrow> text_value (store_flagged v)"
  by (cases v) (simp_all add: store_flagged_def)

lemma text_value_new_value_of [simp]: "text_value v \<Longrightarrow> text_value (new_value_of v)"
  by (cases v) (simp_all add: new_value_of_def pd_isna_def)

lemma set_cells_flagged:
  "ignore_undo m \<Longrightarrow> set_cells push ivs m = write_all ivs m"
proof (induction ivs arbitrary: m)
  case Nil
  then show ?case by (simp add: set_cells_def)
next
  case (Cons a ivs)
  obtain i v where a: "a = (i, v)" by (cases a)
  have "set_cells push (a # ivs) m = set_cells push ivs (fst (setData_via push m i v EditRole))"
    by (simp add: set_cells_def a)
  also have "\<dots> = set_cells push ivs (write_cell m i v)"
    using Cons.prems by (simp add: setData_via_flagged)
  also have "\<dots> = write_all ivs (write_cell m i v)"
    using Cons.prems by (intro Cons.IH) simp
  finally show ?case by (simp add: a)
qed

lemma paste_fold_flagged:
  "ignore_undo m \<Longrightarrow>
   fold (\<lambda>(i, v) s. if isValid s i then fst (setData_via push s i (Str v) EditRole) else s) tv m
   = write_all (map (\<lambda>(i, v). (i, Str v)) tv) m"
proof (induction tv arbitrary: m)
  case Nil
  then show ?case by simp
next
  case (Cons a tv)
  obtain i v where a: "a = (i, v)" by (cases a)
  have step: "(if isValid m i then fst (setData_via push m i (Str v) EditRole) else m)
              = write_cell m i (Str v)"
  proof (cases "isValid m i")
    case True
    then show ?thesis using Cons.prems by (simp add: setData_via_flagged)
  next
    case False
    then show ?thesis by (simp add: write_cell_def)
  qed
  have flag: "ignore_undo (write_cell m i (Str v))" using Cons.prems by simp
  have "fold (\<lambda>(i, v) s. if isValid s i then fst (setData_via push s i (Str v) EditRole) else s)
          (a # tv) m
        = fold (\<lambda>(i, v) s. if isValid s i then fst (setData_via push s i (Str v) EditRole) else s)
          tv (write_cell m i (Str v))"
    by (simp only: a fold_simps prod.case step)
  also have "\<dots> = write_all (map (\<lambda>(i, v). (i, Str v)) tv) (write_cell m i (Str v))"
    by (rule Cons.IH [OF flag])
  finally show ?case by (simp add: a)
qed

lemma flag_on [simp]: "ignore_undo (m\<lparr>ignore_undo := True\<rparr>)"
  by simp

lemma cmd_redo_Edit:
  "cmd_redo push (EditCellCommand i old new) m =
     (write_cell (m\<lparr>ignore_undo := True\<rparr>) i new)\<lparr>ignore_undo := False\<rparr>"
  by (simp only: cmd_redo.simps Let_def setData_via_flagged [OF flag_on])

lemma cmd_redo_Delete:
  "cmd_redo push (DeleteCellsCommand idxs olds) m =
     (write_all (map (\<lambda>i. (i, Str [])) idxs) (m\<lparr>ignore_undo := True\<rparr>))\<lparr>ignore_undo := False\<rparr>"
  by (simp only: cmd_redo.simps Let_def set_cells_flagged [OF flag_on])

lemma cmd_redo_Paste:
  "cmd_redo push (PasteCellsCommand pd st olds) m =
     (write_all (map (\<lambda>(i, v). (i, Str v)) (paste_targets (m\<lparr>ignore_undo := True\<rparr>) pd st))
            (m\<lparr>ignore_undo := True\<rparr>))\<lparr>ignore_undo := False\<rparr>"
  by (simp only: cmd_redo.simps Let_def paste_fold_flagged [OF flag_on])

lemma cmd_redo_PasteMultiple:
  "cmd_redo push (PasteMultipleCellsCommand idxs v olds) m =
     (write_all (map (\<lambda>i. (i, Str v)) idxs) (m\<lparr>ignore_undo := True\<rparr>))\<lparr>ignore_undo := False\<rparr>"
  by (simp only: cmd_redo.simps Let_def set_cells_flagged [OF flag_on])

lemma cmd_undo_Edit:
  "cmd_undo push (EditCellCommand i old new) m =
     (write_cell (m\<lparr>ignore_undo := True\<rparr>) i old)\<lparr>ignore_undo := False\<rparr>"
  by (simp only: cmd_undo.simps Let_def setData_via_flagged [OF flag_on])

lemma cmd_undo_Delete:
  "cmd_undo push (DeleteCellsCommand idxs olds) m =
     (write_all olds (m\<lparr>ignore_undo := True\<rparr>))\<lparr>ignore_undo := False\<rparr>"
  by (simp only: cmd_undo.simps Let_def set_cells_flagged [OF flag_on])

lemma cmd_undo_Paste:
  "cmd_undo push (PasteCellsCommand pd st olds) m =
     (write_all olds (m\<lparr>ignore_undo := True\<rparr>))\<lparr>ignore_undo := False\<rparr>"
  by (simp only: cmd_undo.simps Let_def set_cells_flagged [OF flag_on])

lemma cmd_undo_PasteMultiple:
  "cmd_undo push (PasteMultipleCellsCommand idxs v olds) m =
     (write_all olds (m\<lparr>ignore_undo := True\<rparr>))\<lparr>ignore_undo := False\<rparr>"
  by (simp only: cmd_undo.simps Let_def set_cells_flagged [OF flag_on])

declare cmd_redo.simps [simp del] cmd_undo.simps [simp del]

lemmas cmd_flagged = cmd_redo_Edit cmd_redo_Delete cmd_redo_Paste cmd_redo_PasteMultiple
  cmd_undo_Edit cmd_undo_Delete cmd_undo_Paste cmd_undo_PasteMultiple

text \<open>In a frame that stores texts, the write of a text value changes exactly its cell.\<close>

lemma write_cell_cells:
  "stores_text m \<Longrightarrow> text_value v \<Longrightarrow>
   cells (write_cell m i v) =
     (if isValid m i then (cells m)((row i, column i) := store_flagged v) else cells m)"
  by (simp add: write_cell_def emit_dataChanged_def iloc_set_def stores_text_def store_cell_def)

section \<open>No push from inside a command\<close>

lemma reentrant_cmd_redo [simp]: "reentrant (cmd_redo push c m) = reentrant m"
  by (cases c) (simp_all add: cmd_flagged)

lemma reentrant_cmd_undo [simp]: "reentrant (cmd_undo push c m) = reentrant m"
  by (cases c) (simp_all add: cmd_flagged)

lemma stack_cmd_redo [simp]: "undo_stack (cmd_redo push c m) = undo_stack m"
  by (cases c) (simp_all add: cmd_flagged)

lemma stack_cmd_undo [simp]: "undo_stack (cmd_undo push c m) = undo_stack m"
  by (cases c) (simp_all add: cmd_flagged)

lemma flag_cmd_redo [simp]: "ignore_undo (cmd_redo push c m) = False"
  by (cases c) (simp_all add: cmd_flagged)

lemma flag_cmd_undo [simp]: "ignore_undo (cmd_undo push c m) = False"
  by (cases c) (simp_all add: cmd_flagged)

lemma setitem_cmd_redo [simp]: "setitem (cmd_redo push c m) = setitem m"
  by (cases c) (simp_all add: cmd_flagged)

lemma setitem_cmd_undo [simp]: "setitem (cmd_undo push c m) = setitem m"
  by (cases c) (simp_all add: cmd_flagged)

lemma ne_cmd_redo [simp]: "ne (cmd_redo push c m) = ne m"
  by (cases c) (simp_all add: cmd_flagged)

lemma ne_cmd_undo [simp]: "ne (cmd_undo push c m) = ne m"
  by (cases c) (simp_all add: cmd_flagged)

lemma setitem_QUndoStack_push [simp]: "setitem (QUndoStack_push c m) = setitem m"
  by (simp add: QUndoStack_push_def Let_def)

lemma setitem_QUndoStack_undo [simp]: "setitem (QUndoStack_undo m) = setitem m"
  by (simp add: QUndoStack_undo_def Let_def split: option.splits)

lemma setitem_QUndoStack_redo [simp]: "setitem (QUndoStack_redo m) = setitem m"
  by (simp add: QUndoStack_redo_def Let_def split: option.splits)

lemma ne_QUndoStack_push [simp]: "ne (QUndoStack_push c m) = ne m"
  by (simp add: QUndoStack_push_def Let_def)

lemma stores_text_cmd [simp]:
  "stores_text (cmd_redo push c m) = stores_text m"
  "stores_text (cmd_undo push c m) = stores_text m"
  "stores_text (QUndoStack_push c m) = stores_text m"
  "stores_text (QUndoStack_undo m) = stores_text m"
  "stores_text (QUndoStack_redo m) = stores_text m"
  by (simp_all add: stores_text_def)

lemma cmd_redo_push_free: "cmd_redo push c m = cmd_redo push' c m"
  by (cases c) (simp_all only: cmd_redo_Edit cmd_redo_Delete cmd_redo_Paste cmd_redo_PasteMultiple)

lemma cmd_undo_push_free: "cmd_undo push c m = cmd_undo push' c m"
  by (cases c) (simp_all only: cmd_undo_Edit cmd_undo_Delete cmd_undo_Paste cmd_undo_PasteMultiple)

lemma reentrant_QUndoStack_push [simp]: "reentrant (QUndoStack_push c m) = reentrant m"
  by (simp add: QUndoStack_push_def Let_def)

lemma reentrant_QUndoStack_undo [simp]: "reentrant (QUndoStack_undo m) = reentrant m"
  by (simp add: QUndoStack_undo_def Let_def split: option.splits)

lemma reentrant_QUndoStack_redo [simp]: "reentrant (QUndoStack_redo m) = reentrant m"
  by (simp add: QUndoStack_redo_def Let_def split: option.splits)

lemma reentrant_setData [simp]: "reentrant (fst (setData m i v r)) = reentrant m"
  by (auto simp add: setData_def setData_via_def Let_def emit_dataChanged_def iloc_set_def
      split: sum.splits)

lemma setData_via_flag_push_free:
  "ignore_undo m \<Longrightarrow> setData_via push m i v r = setData_via push' m i v r"
  by (simp add: setData_via_def)

lemma reentrant_clear_cell [simp]:
  "reentrant (fst (clear_cell r col sx)) = reentrant (fst sx)"
  by (auto simp add: clear_cell_def iloc_set_def split: option.splits sum.splits)

lemma reentrant_fold_clear_cell [simp]:
  "reentrant (fst (fold (clear_cell r) cols sx)) = reentrant (fst sx)"
  by (induction cols arbitrary: sx) simp_all

lemma reentrant_clear_range [simp]:
  "reentrant (fst (clear_range r rng sx)) = reentrant (fst sx)"
  by (simp add: clear_range_def Let_def emit_dataChanged_def split: option.splits)

lemma reentrant_fold_clear_range [simp]:
  "reentrant (fst (fold (clear_range r) rngs sx)) = reentrant (fst sx)"
  by (induction rngs arbitrary: sx) simp_all

lemma reentrant_clear_bulk [simp]:
  "reentrant (clear_selected_cells_bulk m idxs) = reentrant m"
proof -
  have "reentrant (fst (fold (\<lambda>(r, cols) sx.
                   (case sort cols of
                      [] \<Rightarrow> sx
                    | c0 # rest \<Rightarrow> fold (clear_range r) (col_ranges c0 c0 rest) sx)) rcs sx))
        = reentrant (fst sx)" for rcs sx
    by (induction rcs arbitrary: sx) (simp_all add: case_prod_beta split: list.splits)
  then show ?thesis by (simp add: clear_selected_cells_bulk_def)
qed

lemma reentrant_clear_selected_cells [simp]:
  "reentrant (clear_selected_cells m idxs) = reentrant m"
  by (simp add: clear_selected_cells_def)

lemma reentrant_push_or_redo [simp]: "reentrant (push_or_redo c m) = reentrant m"
  by (simp add: push_or_redo_def)

lemma reentrant_paste [simp]:
  "reentrant (fst (paste_clipboard_data m t idxs)) = reentrant m"
  by (simp add: paste_clipboard_data_def Let_def split: list.splits)

lemma reentrant_deliver [simp]: "reentrant (deliver evs m) = reentrant m"
proof -
  have "reentrant (fold (\<lambda>e s. case e of UpdateCell idx new_data \<Rightarrow> handle_update_cell idx new_data s
                                  | _ \<Rightarrow> s) evs m) = reentrant m"
    by (induction evs arbitrary: m) (simp_all add: handle_update_cell_def split: event.splits)
  then show ?thesis by (simp add: deliver_def)
qed

text \<open>
  Claim C9. While the undo or redo of a command runs, no command is pushed. Every command
  sets the flag before its first call of \<open>setData\<close> and clears it afterwards, and
  \<open>setData\<close> under the flag never reaches \<open>push\<close>: the result of \<open>undo\<close> and \<open>redo\<close>
  is the same whatever the push of the stack would do, the stack and the count of
  re-entrant pushes are unchanged by them, and no operation of the editor (set a cell,
  clear, paste, deliver a cell update, push, undo, redo) ever raises that count.
\<close>

theorem C9_no_reentrant_push:
  "cmd_undo push c m = cmd_undo reentrant_push c m
   \<and> cmd_redo push c m = cmd_redo reentrant_push c m
   \<and> reentrant (cmd_undo reentrant_push c m) = reentrant m
   \<and> reentrant (cmd_redo reentrant_push c m) = reentrant m
   \<and> undo_stack (cmd_undo push c m) = undo_stack m
   \<and> undo_stack (cmd_redo push c m) = undo_stack m
   \<and> \<not> ignore_undo (cmd_undo push c m)
   \<and> \<not> ignore_undo (cmd_redo push c m)
   \<and> (ignore_undo m \<longrightarrow> setData_via push m i v r = setData_via reentrant_push m i v r
                         \<and> undo_stack (fst (setData m i v r)) = undo_stack m)
   \<and> reentrant (QUndoStack_push c m) = reentrant m
   \<and> reentrant (QUndoStack_undo m) = reentrant m
   \<and> reentrant (QUndoStack_redo m) = reentrant m
   \<and> reentrant (fst (setData m i v r)) = reentrant m
   \<and> reentrant (clear_selected_cells m idxs) = reentrant m
   \<and> reentrant (fst (paste_clipboard_data m t idxs)) = reentrant m
   \<and> reentrant (deliver evs m) = reentrant m"
proof -
  have a: "cmd_undo push c m = cmd_undo reentrant_push c m"
    by (rule cmd_undo_push_free)
  have b: "cmd_redo push c m = cmd_redo reentrant_push c m"
    by (rule cmd_redo_push_free)
  have f: "ignore_undo m \<longrightarrow> setData_via push m i v r = setData_via reentrant_push m i v r
                         \<and> undo_stack (fst (setData m i v r)) = undo_stack m"
    by (auto simp add: setData_def setData_via_def emit_dataChanged_def iloc_set_def
        split: sum.splits)
  show ?thesis using a b f by simp
qed

theorem C9_no_reentrant_push_witness:
  "ignore_undo (table0\<lparr>ignore_undo := True\<rparr>)
   \<and> setData_via QUndoStack_push (table0\<lparr>ignore_undo := True\<rparr>) (QModelIndex 0 2) (Str (lit ''b'')) EditRole
     = setData_via reentrant_push (table0\<lparr>ignore_undo := True\<rparr>) (QModelIndex 0 2) (Str (lit ''b'')) EditRole
   \<and> undo_stack (fst (setData (table0\<lparr>ignore_undo := True\<rparr>) (QModelIndex 0 2) (Str (lit ''b'')) EditRole))
     = undo_stack table0
   \<and> reentrant (QUndoStack_undo (QUndoStack_push
        (EditCellCommand (QModelIndex 0 2) (Str (lit ''a'')) (Str (lit ''b''))) table0)) = 0"
  using C9_no_reentrant_push [of QUndoStack_push
          "EditCellCommand (QModelIndex 0 2) (Str (lit ''a'')) (Str (lit ''b''))"
          "table0\<lparr>ignore_undo := True\<rparr>" "QModelIndex 0 2" "Str (lit ''b'')" EditRole "[]" "[]" "[]"]
        C9_no_reentrant_push [of QUndoStack_push
          "EditCellCommand (QModelIndex 0 2) (Str (lit ''a'')) (Str (lit ''b''))"
          "QUndoStack_push (EditCellCommand (QModelIndex 0 2) (Str (lit ''a'')) (Str (lit ''b''))) table0"
          "QModelIndex 0 2" "Str (lit ''b'')" EditRole "[]" "[]" "[]"]
        C9_no_reentrant_push [of QUndoStack_push
          "EditCellCommand (QModelIndex 0 2) (Str (lit ''a'')) (Str (lit ''b''))"
          table0 "QModelIndex 0 2" "Str (lit ''b'')" EditRole "[]" "[]" "[]"]
  by (simp add: table0_def)

section \<open>The pipeline on an empty selection\<close>

text \<open>
  Claim C10. Run on an empty list of cells, the pipeline emits one progress event of value
  100 and then one completion event, nothing else (no cell update, no error), and the model
  after the delivery of its events is the model before.
\<close>

theorem C10_empty_selection:
  "ImageProcessor_run h p m [] = [Progress 100, Finished]
   \<and> process_images h p m [] = ([Progress 100, Finished], m)"
  by (simp add: ImageProcessor_run_def process_images_def deliver_def)

theorem C10_empty_selection_witness:
  "ImageProcessor_run host0 processor0 table0 [] = [Progress 100, Finished]
   \<and> process_images host0 processor0 table0 [] = ([Progress 100, Finished], table0)"
  using C10_empty_selection [of host0 processor0 table0] by simp

section \<open>Setting a cell and pushing\<close>

lemma iloc_write_cell:
  "stores_text m \<Longrightarrow> text_value v \<Longrightarrow>
   iloc (write_cell m i v) j =
     (if isValid m i \<and> j = i then store_flagged v else iloc m j)"
  by (cases i; cases j) (simp add: iloc_def write_cell_cells)



lemma table0_stores [simp]: "stores_text table0" "text_frame table0"
  by (simp_all add: text_frame_def stores_text_def table0_def)

lemma table0_valid [simp]: "isValid table0 (QModelIndex 0 c) = (c < 3)"
  by (simp add: isValid_def rowCount_def columnCount_def table0_def)

lemma FIELD_NONE_neq [simp]: "FIELD_NONE \<noteq> []" "lit ''a'' \<noteq> FIELD_NONE" "lit ''b'' \<noteq> FIELD_NONE"
  by (simp_all add: FIELD_NONE_def lit_def)



text \<open>
  Claim C6 at a failing input: the cell holds the empty string and is set to the empty
  string. The new value is normalised to the missing value, the old one is not, so the two
  differ: \<open>setData\<close> returns \<open>True\<close>, a command is pushed, the cell becomes the missing
  value and \<open>dataChanged\<close> is emitted.
\<close>

theorem C6_blank_edit_is_pushed:
  "iloc table0 (QModelIndex 0 0) = Str []
   \<and> snd (setData table0 (QModelIndex 0 0) (Str []) EditRole)
   \<and> map_option commands (undo_stack (fst (setData table0 (QModelIndex 0 0) (Str []) EditRole)))
      = Some [EditCellCommand (QModelIndex 0 0) (Str []) NA]
   \<and> iloc (fst (setData table0 (QModelIndex 0 0) (Str []) EditRole)) (QModelIndex 0 0) = NA
   \<and> emitted (fst (setData table0 (QModelIndex 0 0) (Str []) EditRole))
      = [(QModelIndex 0 0, QModelIndex 0 0)]"
  by (simp add: setData_def setData_via_def QUndoStack_push_def Let_def
      cmd_flagged iloc_def new_value_of_def values_differ_def py_ne_def pd_isna_def
      record_command_def store_flagged_def table0_def isValid_def rowCount_def
      columnCount_def write_cell_def emit_dataChanged_def iloc_set_def store_cell_def)

section \<open>The pipeline: one image\<close>

lemma process_url_fetch:
  assumes "download_images p"
    and "urlparse h src = Inr (scheme, path0)"
    and "urlparse h (if scheme = [] then lit ''https:'' @ src else src) = Inr (scheme1, path1)"
    and "basename h path1 \<noteq> []"
  shows "process_url h p idx src =
     (let src1 = (if scheme = [] then lit ''https:'' @ src else src);
          ev1 = (if scheme = [] then [Log (SchemeAdded src1)] else []);
          file_name = (if splitext_ext h (basename h path1) = []
                       then basename h path1 @ lit ''.jpg'' else basename h path1);
          image_path = path_join h (download_folder p) file_name
      in case urlretrieve h src1 image_path of
           Some e \<Rightarrow> (src, ev1 @ [Log (ImageFailed idx e), Error (ImageFailed idx e)])
         | None \<Rightarrow> (replace_backslash (path_join h (new_path p) file_name),
                     ev1 @ [Log (Downloaded idx image_path),
                            Log (SrcChanged idx src1
                                   (replace_backslash (path_join h (new_path p) file_name)))]))"
  using assms by (simp add: process_url_def Let_def split: option.splits)

text \<open>
  Claim C2, as amended. For an image whose source is a URL, with downloading enabled and a
  file name derived from the address, the \<open>src\<close> attribute is rewritten to the new path
  joined with the file name only when the fetch succeeds. When the fetch raises, the
  failure is logged and reported as an error and the attribute keeps its old value. In
  both cases the cell goes on: its update is emitted with the attribute values that the
  images ended with, followed by the progress.
\<close>

theorem C2_rewrite_only_after_fetch:
  assumes "\<not> startswith src (lit ''data:image'')"
    and "download_images p"
    and "urlparse h src = Inr (scheme, path0)"
    and "src1 = (if scheme = [] then lit ''https:'' @ src else src)"
    and "urlparse h src1 = Inr (scheme1, path1)"
    and "basename h path1 \<noteq> []"
    and "file_name = (if splitext_ext h (basename h path1) = []
                      then basename h path1 @ lit ''.jpg'' else basename h path1)"
    and "image_path = path_join h (download_folder p) file_name"
  shows "(urlretrieve h src1 image_path = None \<longrightarrow>
            fst (process_img h p idx k src) = replace_backslash (path_join h (new_path p) file_name))
       \<and> (\<forall>e. urlretrieve h src1 image_path = Some e \<longrightarrow>
            fst (process_img h p idx k src) = src
            \<and> snd (process_img h p idx k src)
              = (if scheme = [] then [Log (SchemeAdded src1)] else [])
                @ [Log (ImageFailed idx e), Error (ImageFailed idx e)])
       \<and> (data m idx DisplayRole = Str t \<and> t \<noteq> [] \<and> find_all_img h t = Inr imgs \<and> imgs \<noteq> [] \<longrightarrow>
            process_cell h p m i n idx
            = concat (map (\<lambda>(k, s). snd (process_img h p idx k s)) (enumerate_from0 imgs))
              @ [UpdateCell idx
                   (soup_str h t (map (\<lambda>(k, s). fst (process_img h p idx k s)) (enumerate_from0 imgs))),
                 Progress (percent h i n)])"
proof -
  have u: "process_img h p idx k src = process_url h p idx src"
    using assms(1) by (simp add: process_img_def)
  have f: "process_url h p idx src =
     (case urlretrieve h src1 image_path of
           Some e \<Rightarrow> (src, (if scheme = [] then [Log (SchemeAdded src1)] else [])
                          @ [Log (ImageFailed idx e), Error (ImageFailed idx e)])
         | None \<Rightarrow> (replace_backslash (path_join h (new_path p) file_name),
                     (if scheme = [] then [Log (SchemeAdded src1)] else [])
                     @ [Log (Downloaded idx image_path),
                            Log (SrcChanged idx src1
                                   (replace_backslash (path_join h (new_path p) file_name)))]))"
    using process_url_fetch [OF assms(2) assms(3) assms(5) [unfolded assms(4)] assms(6), of idx]
    unfolding assms(4) assms(7) assms(8) by (simp add: Let_def)
  have c: "data m idx DisplayRole = Str t \<and> t \<noteq> [] \<and> find_all_img h t = Inr imgs \<and> imgs \<noteq> [] \<longrightarrow>
            process_cell h p m i n idx
            = concat (map (\<lambda>(k, s). snd (process_img h p idx k s)) (enumerate_from0 imgs))
              @ [UpdateCell idx
                   (soup_str h t (map (\<lambda>(k, s). fst (process_img h p idx k s)) (enumerate_from0 imgs))),
                 Progress (percent h i n)]"
    by (simp add: process_cell_def Let_def case_prod_unfold comp_def)
  show ?thesis using c by (simp add: u f)
qed

lemma host0_simps [simp]:
  "urlparse host0 (lit ''http://h/a.png'') = Inr (lit ''http'', lit ''/a.png'')"
  "basename host0 (lit ''/a.png'') = lit ''a.png''"
  "splitext_ext host0 (lit ''a.png'') = lit ''.png''"
  "path_join host0 a b = a @ lit ''/'' @ b"
  "urlretrieve host0 u f = Some URLError"
  "find_all_img host0 (lit ''<img src=http://h/a.png>'') = Inr [lit ''http://h/a.png'']"
  "percent host0 i n = i * 100 div n"
  by (simp_all add: host0_def)

lemma not_data_image: "\<not> startswith (lit ''http://h/a.png'') (lit ''data:image'')"
  by (simp add: startswith_def lit_def)

theorem C2_rewrite_only_after_fetch_witness:
  "\<not> startswith (lit ''http://h/a.png'') (lit ''data:image'')
   \<and> download_images processor0
   \<and> urlparse host0 (lit ''http://h/a.png'') = Inr (lit ''http'', lit ''/a.png'')
   \<and> basename host0 (lit ''/a.png'') \<noteq> []
   \<and> urlretrieve host0 (lit ''http://h/a.png'') (lit ''dl/a.png'') = Some URLError
   \<and> fst (process_img host0 processor0 (QModelIndex 0 0) 0 (lit ''http://h/a.png''))
      = lit ''http://h/a.png''
   \<and> snd (process_img host0 processor0 (QModelIndex 0 0) 0 (lit ''http://h/a.png''))
      = [Log (ImageFailed (QModelIndex 0 0) URLError), Error (ImageFailed (QModelIndex 0 0) URLError)]
   \<and> urlretrieve (host0\<lparr>urlretrieve := \<lambda>u f. None\<rparr>) (lit ''http://h/a.png'') (lit ''dl/a.png'') = None
   \<and> fst (process_img (host0\<lparr>urlretrieve := \<lambda>u f. None\<rparr>) processor0 (QModelIndex 0 0) 0
             (lit ''http://h/a.png''))
      = lit ''img/a.png''"
proof -
  let ?src = "lit ''http://h/a.png''"
  let ?h1 = "host0\<lparr>urlretrieve := \<lambda>u f. None\<rparr>"
  have d: "download_images processor0" by (simp add: processor0_def)
  have s: "lit ''http'' \<noteq> []" by (simp add: lit_def)
  have src1: "?src = (if lit ''http'' = [] then lit ''https:'' @ ?src else ?src)"
    using s by simp
  have b: "basename host0 (lit ''/a.png'') \<noteq> []"
    by (simp only: host0_simps) (simp add: lit_def)
  have fn: "lit ''a.png'' = (if splitext_ext host0 (basename host0 (lit ''/a.png'')) = []
                      then basename host0 (lit ''/a.png'') @ lit ''.jpg''
                      else basename host0 (lit ''/a.png''))"
    by (simp only: host0_simps) (simp add: lit_def)
  have ip: "lit ''dl/a.png'' = path_join host0 (download_folder processor0) (lit ''a.png'')"
    by simp (simp add: processor0_def lit_def)
  have u1: "urlparse ?h1 ?src = Inr (lit ''http'', lit ''/a.png'')" by simp
  have b1: "basename ?h1 (lit ''/a.png'') \<noteq> []" by simp (simp add: lit_def)
  have fn1: "lit ''a.png'' = (if splitext_ext ?h1 (basename ?h1 (lit ''/a.png'')) = []
                      then basename ?h1 (lit ''/a.png'') @ lit ''.jpg''
                      else basename ?h1 (lit ''/a.png''))"
    by simp (simp add: lit_def)
  have ip1: "lit ''dl/a.png'' = path_join ?h1 (download_folder processor0) (lit ''a.png'')"
    by simp (simp add: processor0_def lit_def)
  have rb: "replace_backslash (path_join ?h1 (new_path processor0) (lit ''a.png'')) = lit ''img/a.png''"
    by simp (simp add: replace_backslash_def processor0_def lit_def)
  note fail = C2_rewrite_only_after_fetch [OF not_data_image d host0_simps(1) src1 host0_simps(1) b fn ip,
      of "QModelIndex 0 0" 0 table1 "[]" "[]" 1 1]
  note ok = C2_rewrite_only_after_fetch [OF not_data_image d u1 src1 u1 b1 fn1 ip1,
      of "QModelIndex 0 0" 0 table1 "[]" "[]" 1 1]
  have r1: "fst (process_img host0 processor0 (QModelIndex 0 0) 0 ?src) = ?src"
    and r2: "snd (process_img host0 processor0 (QModelIndex 0 0) 0 ?src)
      = [Log (ImageFailed (QModelIndex 0 0) URLError), Error (ImageFailed (QModelIndex 0 0) URLError)]"
    using fail s by simp_all
  have r3: "fst (process_img ?h1 processor0 (QModelIndex 0 0) 0 ?src) = lit ''img/a.png''"
    using ok rb by simp
  show ?thesis using not_data_image d b r1 r2 r3 by simp
qed

lemma process_img_host0:
  "process_img host0 processor0 idx k (lit ''http://h/a.png'')
   = (lit ''http://h/a.png'', [Log (ImageFailed idx URLError), Error (ImageFailed idx URLError)])"
proof -
  have s: "lit ''http'' \<noteq> []" "lit ''a.png'' \<noteq> []" by (simp_all add: lit_def)
  have "process_url host0 processor0 idx (lit ''http://h/a.png'')
        = (lit ''http://h/a.png'', [Log (ImageFailed idx URLError), Error (ImageFailed idx URLError)])"
    using s by (simp add: process_url_def Let_def processor0_def)
  then show ?thesis using not_data_image by (simp add: process_img_def)
qed

lemma table1_data [simp]:
  "data table1 (QModelIndex 0 0) DisplayRole = Str (lit ''<img src=http://h/a.png>'')"
  "data table1 (QModelIndex 0 (Suc 0)) DisplayRole = Str []"
  "data table1 (QModelIndex 0 2) DisplayRole = Str (lit ''<img src=http://h/a.png>'')"
  by (simp_all add: data_def isValid_def rowCount_def columnCount_def iloc_def pd_isna_def
      table1_def)

lemma img_text_nonempty [simp]: "lit ''<img src=http://h/a.png>'' \<noteq> []"
  by (simp add: lit_def)

lemma process_cell_host0:
  "process_cell host0 processor0 table1 i n (QModelIndex 0 0)
   = [Log (ImageFailed (QModelIndex 0 0) URLError), Error (ImageFailed (QModelIndex 0 0) URLError),
      UpdateCell (QModelIndex 0 0) (lit ''<img src='' @ [0x22] @ lit ''http://h/a.png'' @ [0x22] @ lit ''/>''),
      Progress (i * 100 div n)]"
  "process_cell host0 processor0 table1 i n (QModelIndex 0 (Suc 0)) = []"
  by (simp_all add: process_cell_def Let_def enumerate_from0_def process_img_host0)
     (simp add: host0_def)

text \<open>
  Claim C2 as stated fails: the address \<open>http://h/a.png\<close> is fetched with downloading
  enabled and the fetch raises. The image keeps its old source, and the update emitted for
  the cell carries the old address, not \<open>img/a.png\<close>.
\<close>

theorem C2_counterexample:
  "download_images processor0
   \<and> urlretrieve host0 (lit ''http://h/a.png'') (lit ''dl/a.png'') = Some URLError
   \<and> replace_backslash (path_join host0 (new_path processor0) (lit ''a.png'')) = lit ''img/a.png''
   \<and> fst (process_img host0 processor0 (QModelIndex 0 0) 0 (lit ''http://h/a.png''))
      = lit ''http://h/a.png''
   \<and> ImageProcessor_run host0 processor0 table1 [QModelIndex 0 0]
      = [Log (ImageFailed (QModelIndex 0 0) URLError), Error (ImageFailed (QModelIndex 0 0) URLError),
         UpdateCell (QModelIndex 0 0)
           (lit ''<img src='' @ [0x22] @ lit ''http://h/a.png'' @ [0x22] @ lit ''/>''),
         Progress 100, Finished]"
  by (simp add: ImageProcessor_run_def process_cell_host0 process_img_host0)
     (simp add: processor0_def replace_backslash_def lit_def)

section \<open>The pipeline: progress\<close>

lemma progress_values_simps [simp]:
  "progress_values [] = []"
  "progress_values (Progress v # evs) = v # progress_values evs"
  "progress_values (Log l # evs) = progress_values evs"
  "progress_values (Error l # evs) = progress_values evs"
  "progress_values (UpdateCell idx t # evs) = progress_values evs"
  "progress_values (Finished # evs) = progress_values evs"
  "progress_values (evs @ evs') = progress_values evs @ progress_values evs'"
  by (simp_all add: progress_values_def)

lemma updated_cells_simps [simp]:
  "updated_cells [] = []"
  "updated_cells (Progress v # evs) = updated_cells evs"
  "updated_cells (Log l # evs) = updated_cells evs"
  "updated_cells (Error l # evs) = updated_cells evs"
  "updated_cells (UpdateCell idx t # evs) = idx # updated_cells evs"
  "updated_cells (Finished # evs) = updated_cells evs"
  "updated_cells (evs @ evs') = updated_cells evs @ updated_cells evs'"
  by (simp_all add: updated_cells_def)

lemma only_messages_simps [simp]:
  "only_messages []"
  "only_messages (Log l # evs) = only_messages evs"
  "only_messages (Error l # evs) = only_messages evs"
  "only_messages (evs @ evs') = (only_messages evs \<and> only_messages evs')"
  by (simp_all add: only_messages_def)

lemma only_messages_base64: "only_messages (snd (process_base64 h p idx k src))"
  by (simp add: process_base64_def Let_def split: option.splits list.splits prod.splits)

lemma only_messages_url: "only_messages (snd (process_url h p idx src))"
  by (simp add: process_url_def Let_def split: option.splits sum.splits prod.splits)

lemma only_messages_img: "only_messages (snd (process_img h p idx k src))"
  by (simp add: process_img_def only_messages_base64 only_messages_url)

lemma only_messages_facts:
  assumes "only_messages evs"
  shows "progress_values evs = []" and "updated_cells evs = []" and "Finished \<notin> set evs"
  using assms
  by (induction evs; simp add: only_messages_def split: event.splits)+

lemma only_messages_concat:
  "(\<And>x. x \<in> set xs \<Longrightarrow> only_messages (f x)) \<Longrightarrow> only_messages (concat (map f xs))"
  by (induction xs) simp_all

lemma process_cell_yields:
  assumes "yields_update h m idx"
  shows "\<exists>msgs t. only_messages msgs
           \<and> process_cell h p m i n idx = msgs @ [UpdateCell idx t, Progress (percent h i n)]"
proof -
  from assms obtain t imgs where
    d: "data m idx DisplayRole = Str t" and t: "t \<noteq> []"
    and f: "find_all_img h t = Inr imgs" and im: "imgs \<noteq> []"
    by (auto simp add: yields_update_def split: pyvalue.splits if_splits sum.splits)
  let ?msgs = "concat (map (\<lambda>x. snd (process_img h p idx (fst x) (snd x))) (enumerate_from0 imgs))"
  have "only_messages ?msgs"
    by (rule only_messages_concat) (rule only_messages_img)
  moreover have "process_cell h p m i n idx
    = ?msgs @ [UpdateCell idx (soup_str h t (map (\<lambda>x. fst (process_img h p idx (fst x) (snd x)))
                                               (enumerate_from0 imgs))),
               Progress (percent h i n)]"
    using d t f im by (simp add: process_cell_def Let_def case_prod_unfold comp_def)
  ultimately show ?thesis by blast
qed

lemma process_cell_skips:
  assumes "\<not> yields_update h m idx"
  shows "only_messages (process_cell h p m i n idx)"
  using assms
  by (simp add: yields_update_def process_cell_def split: pyvalue.splits if_splits sum.splits)

lemma process_cell_progress:
  "progress_values (process_cell h p m i n idx)
   = (if yields_update h m idx then [percent h i n] else [])"
proof (cases "yields_update h m idx")
  case True
  from process_cell_yields [OF True, of p i n] obtain msgs t where
    "only_messages msgs"
    "process_cell h p m i n idx = msgs @ [UpdateCell idx t, Progress (percent h i n)]"
    by blast
  then show ?thesis using True by (simp add: only_messages_facts)
next
  case False
  then show ?thesis using process_cell_skips [OF False] by (simp add: only_messages_facts)
qed

lemma process_cell_updated:
  "updated_cells (process_cell h p m i n idx) = (if yields_update h m idx then [idx] else [])"
proof (cases "yields_update h m idx")
  case True
  from process_cell_yields [OF True, of p i n] obtain msgs t where
    "only_messages msgs"
    "process_cell h p m i n idx = msgs @ [UpdateCell idx t, Progress (percent h i n)]"
    by blast
  then show ?thesis using True by (simp add: only_messages_facts)
next
  case False
  then show ?thesis using process_cell_skips [OF False] by (simp add: only_messages_facts)
qed

lemma process_cell_not_finished: "Finished \<notin> set (process_cell h p m i n idx)"
proof (cases "yields_update h m idx")
  case True
  from process_cell_yields [OF True, of p i n] obtain msgs t where
    "only_messages msgs"
    "process_cell h p m i n idx = msgs @ [UpdateCell idx t, Progress (percent h i n)]"
    by blast
  then show ?thesis by (simp add: only_messages_facts)
next
  case False
  then show ?thesis using process_cell_skips [OF False] by (simp add: only_messages_facts)
qed

lemma progress_values_cells:
  "progress_values (concat (map (\<lambda>(i, idx). process_cell h p m i n idx) zs))
   = map (\<lambda>(i, idx). percent h i n) (filter (\<lambda>(i, idx). yields_update h m idx) zs)"
  by (induction zs) (simp_all add: process_cell_progress case_prod_unfold)

lemma updated_cells_cells:
  "updated_cells (concat (map (\<lambda>(i, idx). process_cell h p m i n idx) zs))
   = map snd (filter (\<lambda>(i, idx). yields_update h m idx) zs)"
  by (induction zs) (simp_all add: process_cell_updated case_prod_unfold)

lemma not_finished_cells:
  "Finished \<notin> set (concat (map (\<lambda>(i, idx). process_cell h p m i n idx) zs))"
  by (induction zs) (simp_all add: process_cell_not_finished case_prod_unfold)

lemma zip_positions_snoc:
  "zip [1..<length (xs @ [x]) + 1] (xs @ [x]) = zip [1..<length xs + 1] xs @ [(length xs + 1, x)]"
proof -
  have a: "[1..<length (xs @ [x]) + 1] = [1..<length xs + 1] @ [length xs + 1]"
    using upt_Suc_append [of 1 "length xs + 1"] by (simp del: upt_Suc)
  have l: "length [1..<length xs + 1] = length xs" by (simp del: upt_Suc)
  have "zip ([1..<length xs + 1] @ [length xs + 1]) (xs @ [x])
        = zip [1..<length xs + 1] xs @ zip [length xs + 1] [x]"
    using l by (rule zip_append)
  then show ?thesis unfolding a by (simp del: upt_Suc)
qed

text \<open>
  Claim C3, as amended. A run over a non-empty list of \<open>N\<close> cells emits exactly one
  completion event, as its last event. Progress is emitted only for the cells that hold a
  non-empty text with at least one image element: for the \<open>i\<close>-th cell (counted from 1)
  the value \<open>percent i N\<close>, right after the update of that cell. An empty cell, a cell
  without images and a cell whose processing fails emit no progress. When the last cell
  holds images the run ends with the progress \<open>percent N N\<close> and the completion event,
  whatever happened to the image references on the way.
\<close>

theorem C3_progress_only_for_updated_cells:
  assumes "selected_indexes \<noteq> []"
  shows "progress_values (ImageProcessor_run h p m selected_indexes)
         = map (\<lambda>(i, idx). percent h i (length selected_indexes))
             (filter (\<lambda>(i, idx). yields_update h m idx)
                (zip [1..<length selected_indexes + 1] selected_indexes))
       \<and> updated_cells (ImageProcessor_run h p m selected_indexes)
         = map snd (filter (\<lambda>(i, idx). yields_update h m idx)
                (zip [1..<length selected_indexes + 1] selected_indexes))
       \<and> count_list (ImageProcessor_run h p m selected_indexes) Finished = 1
       \<and> last (ImageProcessor_run h p m selected_indexes) = Finished
       \<and> (yields_update h m (last selected_indexes) \<longrightarrow>
            (\<exists>evs. ImageProcessor_run h p m selected_indexes
                   = evs @ [Progress (percent h (length selected_indexes) (length selected_indexes)),
                            Finished]))"
proof -
  let ?n = "length selected_indexes"
  let ?cells = "\<lambda>zs. concat (map (\<lambda>(i, idx). process_cell h p m i ?n idx) zs)"
  have run: "ImageProcessor_run h p m selected_indexes
             = ?cells (zip [1..<?n + 1] selected_indexes) @ [Finished]"
    using assms by (simp add: ImageProcessor_run_def Let_def del: upt_Suc)
  have 1: "progress_values (ImageProcessor_run h p m selected_indexes)
         = map (\<lambda>(i, idx). percent h i ?n)
             (filter (\<lambda>(i, idx). yields_update h m idx) (zip [1..<?n + 1] selected_indexes))"
    unfolding run by (simp only: progress_values_simps progress_values_cells) simp
  have 2: "updated_cells (ImageProcessor_run h p m selected_indexes)
         = map snd (filter (\<lambda>(i, idx). yields_update h m idx) (zip [1..<?n + 1] selected_indexes))"
    unfolding run by (simp only: updated_cells_simps updated_cells_cells) simp
  have 3: "count_list (ImageProcessor_run h p m selected_indexes) Finished = 1"
    unfolding run using not_finished_cells [of h p m ?n "zip [1..<?n + 1] selected_indexes"]
    by (simp only: count_list_append count_notin) simp
  have 4: "last (ImageProcessor_run h p m selected_indexes) = Finished"
    unfolding run by simp
  have 5: "\<exists>evs. ImageProcessor_run h p m selected_indexes
                   = evs @ [Progress (percent h ?n ?n), Finished]"
    if y: "yields_update h m (last selected_indexes)"
  proof -
    from assms obtain xs x where sx: "selected_indexes = xs @ [x]"
      by (metis append_butlast_last_id)
    have lx: "last selected_indexes = x" and n: "?n = length xs + 1" by (simp_all add: sx)
    from process_cell_yields [OF y [unfolded lx], of p ?n ?n] obtain msgs t where
      pc: "process_cell h p m ?n ?n x = msgs @ [UpdateCell x t, Progress (percent h ?n ?n)]"
      by blast
    have "zip [1..<?n + 1] selected_indexes = zip [1..<length xs + 1] xs @ [(?n, x)]"
      unfolding sx using zip_positions_snoc [of xs x] by simp
    then have "?cells (zip [1..<?n + 1] selected_indexes)
          = ?cells (zip [1..<length xs + 1] xs) @ process_cell h p m ?n ?n x"
      by simp
    then have "ImageProcessor_run h p m selected_indexes
          = (?cells (zip [1..<length xs + 1] xs) @ msgs @ [UpdateCell x t])
            @ [Progress (percent h ?n ?n), Finished]"
      unfolding run pc by simp
    then show ?thesis by blast
  qed
  show ?thesis using 1 2 3 4 5 by blast
qed

lemma yields_update_table1 [simp]:
  "yields_update host0 table1 (QModelIndex 0 0)"
  "\<not> yields_update host0 table1 (QModelIndex 0 (Suc 0))"
  "yields_update host0 table1 (QModelIndex 0 2)"
  by (simp_all add: yields_update_def)

theorem C3_progress_only_for_updated_cells_witness:
  "[QModelIndex 0 0, QModelIndex 0 1, QModelIndex 0 2] \<noteq> []
   \<and> yields_update host0 table1 (last [QModelIndex 0 0, QModelIndex 0 1, QModelIndex 0 2])
   \<and> progress_values (ImageProcessor_run host0 processor0 table1
         [QModelIndex 0 0, QModelIndex 0 1, QModelIndex 0 2]) = [33, 100]
   \<and> updated_cells (ImageProcessor_run host0 processor0 table1
         [QModelIndex 0 0, QModelIndex 0 1, QModelIndex 0 2]) = [QModelIndex 0 0, QModelIndex 0 2]
   \<and> count_list (ImageProcessor_run host0 processor0 table1
         [QModelIndex 0 0, QModelIndex 0 1, QModelIndex 0 2]) Finished = 1
   \<and> (\<exists>evs. ImageProcessor_run host0 processor0 table1
                [QModelIndex 0 0, QModelIndex 0 1, QModelIndex 0 2]
              = evs @ [Progress 100, Finished])"
proof -
  have ne: "[QModelIndex 0 0, QModelIndex 0 1, QModelIndex 0 2] \<noteq> []" by simp
  have z: "zip [1..<length [QModelIndex 0 0, QModelIndex 0 1, QModelIndex 0 2] + 1]
             [QModelIndex 0 0, QModelIndex 0 1, QModelIndex 0 2]
           = [(1, QModelIndex 0 0), (2, QModelIndex 0 (Suc 0)), (3, QModelIndex 0 2)]"
    by (simp add: eval_nat_numeral)
  show ?thesis
    using C3_progress_only_for_updated_cells [OF ne, of host0 processor0 table1]
    unfolding z by simp
qed

text \<open>
  Claim C3 as stated fails: in a run over two cells of which the second is empty, the only
  progress event is the 50 of the first cell; nothing is emitted after the second cell and
  the run ends without a progress of 100.
\<close>

theorem C3_counterexample:
  "data table1 (QModelIndex 0 1) DisplayRole = Str []
   \<and> ImageProcessor_run host0 processor0 table1 [QModelIndex 0 0, QModelIndex 0 1]
      = [Log (ImageFailed (QModelIndex 0 0) URLError), Error (ImageFailed (QModelIndex 0 0) URLError),
         UpdateCell (QModelIndex 0 0)
           (lit ''<img src='' @ [0x22] @ lit ''http://h/a.png'' @ [0x22] @ lit ''/>''),
         Progress 50, Finished]
   \<and> progress_values (ImageProcessor_run host0 processor0 table1 [QModelIndex 0 0, QModelIndex 0 1])
      = [50]"
proof -
  have l: "length [QModelIndex 0 0, QModelIndex 0 1] = 2" by simp
  have z: "zip [1..<2 + 1] [QModelIndex 0 0, QModelIndex 0 1]
           = [(1, QModelIndex 0 0), (2, QModelIndex 0 (Suc 0))]"
    by (simp add: eval_nat_numeral)
  have run: "ImageProcessor_run host0 processor0 table1 [QModelIndex 0 0, QModelIndex 0 1]
      = [Log (ImageFailed (QModelIndex 0 0) URLError), Error (ImageFailed (QModelIndex 0 0) URLError),
         UpdateCell (QModelIndex 0 0)
           (lit ''<img src='' @ [0x22] @ lit ''http://h/a.png'' @ [0x22] @ lit ''/>''),
         Progress 50, Finished]"
    unfolding ImageProcessor_run_def Let_def l z by (simp add: process_cell_host0)
  show ?thesis unfolding run by simp
qed

section \<open>Sequences of flagged writes\<close>

lemma map_of_rev_distinct:
  "distinct (map fst xs) \<Longrightarrow> map_of (rev xs) = map_of xs"
proof (induction xs)
  case Nil
  then show ?case by simp
next
  case (Cons a xs)
  obtain k v where a: "a = (k, v)" by (cases a)
  from Cons.prems have nk: "k \<notin> fst ` set xs" and d: "distinct (map fst xs)"
    by (simp_all add: a)
  from nk have "map_of xs k = None" by (simp add: map_of_eq_None_iff)
  then have "[k \<mapsto> v] ++ map_of xs = (map_of xs)(k \<mapsto> v)"
    by (auto simp add: fun_eq_iff map_add_def split: option.splits)
  then show ?case using Cons.IH [OF d] by (simp add: a)
qed

lemma map_of_filter_key:
  "map_of (filter (\<lambda>(k, v). P k) xs) k = (if P k then map_of xs k else None)"
  by (induction xs) (auto simp add: map_of_eq_None_iff)

lemma map_of_graph:
  "map_of (map (\<lambda>k. (k, g k)) ks) k = (if k \<in> set ks then Some (g k) else None)"
  by (induction ks) auto

lemma map_of_dict_of_aux:
  "map_of (fold (\<lambda>(k, v) d. AList.update k v d) kvs d) = map_of d ++ map_of (rev kvs)"
  by (induction kvs arbitrary: d) (auto simp add: update_conv' map_add_upd_left fun_eq_iff map_add_def split: option.splits)

lemma map_of_dict_of: "map_of (dict_of kvs) = map_of (rev kvs)"
  by (simp add: dict_of_def map_of_dict_of_aux)

lemma distinct_dict_of_aux:
  "distinct (map fst d) \<Longrightarrow> distinct (map fst (fold (\<lambda>(k, v) d. AList.update k v d) kvs d))"
  by (induction kvs arbitrary: d) (auto simp add: distinct_update)

lemma distinct_dict_of: "distinct (map fst (dict_of kvs))"
  by (simp add: dict_of_def distinct_dict_of_aux)

lemma map_of_dict_of_graph:
  "map_of (dict_of (map (\<lambda>k. (k, g k)) ks)) k = (if k \<in> set ks then Some (g k) else None)"
  using map_of_graph [of g "rev ks" k] by (simp add: map_of_dict_of rev_map)

lemma data_valid:
  "isValid m j \<Longrightarrow> data m j DisplayRole = Str (if iloc m j = NA then [] else py_str (iloc m j))"
  by (simp add: data_def pd_isna_def Let_def)

lemma data_invalid: "\<not> isValid m j \<Longrightarrow> data m j DisplayRole = QVariant"
  by (simp add: data_def)

lemma text_value_data [simp]: "isValid m i \<Longrightarrow> text_value (data m i DisplayRole)"
  by (simp add: data_valid)

lemma iloc_write_all:
  "stores_text m \<Longrightarrow> \<forall>(i, v) \<in> set ivs. isValid m i \<longrightarrow> text_value v \<Longrightarrow>
   iloc (write_all ivs m) j =
     (case map_of (rev (filter (\<lambda>(i, v). isValid m i) ivs)) j of
        None \<Rightarrow> iloc m j
      | Some v \<Rightarrow> store_flagged v)"
proof (induction ivs arbitrary: m)
  case Nil
  then show ?case by simp
next
  case (Cons a ivs)
  obtain i v where a: "a = (i, v)" by (cases a)
  have st: "stores_text (write_cell m i v)" using Cons.prems(1) by simp
  have tv: "\<forall>(i', v') \<in> set ivs. isValid (write_cell m i v) i' \<longrightarrow> text_value v'"
    using Cons.prems(2) by simp
  note ih = Cons.IH [OF st tv]
  show ?case
  proof (cases "isValid m i")
    case True
    with Cons.prems(2) have "text_value v" by (simp add: a)
    then show ?thesis
      using True Cons.prems(1)
      by (simp add: a ih iloc_write_cell map_add_def split: option.splits)
  next
    case False
    then have e: "write_cell m i v = m" by (rule write_cell_invalid)
    show ?thesis using False ih unfolding e by (simp add: a e)
  qed
qed

lemma iloc_write_all_distinct:
  assumes "distinct (map fst ivs)" and st: "stores_text m"
    and tv: "\<forall>(i, v) \<in> set ivs. isValid m i \<longrightarrow> text_value v"
  shows "iloc (write_all ivs m) j =
     (if isValid m j then (case map_of ivs j of None \<Rightarrow> iloc m j | Some v \<Rightarrow> store_flagged v)
      else iloc m j)"
proof -
  have d: "distinct (map fst (filter (\<lambda>(i, v). isValid m i) ivs))"
    using assms(1) by (simp add: distinct_map_filter)
  show ?thesis
    by (simp add: iloc_write_all [OF st tv] map_of_rev_distinct [OF d] map_of_filter_key)
qed

lemma iloc_write_all_graph:
  assumes st: "stores_text m" and tv: "\<forall>i \<in> set idxs. isValid m i \<longrightarrow> text_value (g i)"
  shows "iloc (write_all (map (\<lambda>i. (i, g i)) idxs) m) j =
     (if isValid m j \<and> j \<in> set idxs then store_flagged (g j) else iloc m j)"
proof -
  have f: "filter (\<lambda>(i, v). isValid m i) (map (\<lambda>i. (i, g i)) idxs)
           = map (\<lambda>i. (i, g i)) (filter (isValid m) idxs)"
    by (induction idxs) simp_all
  have tv': "\<forall>(i, v) \<in> set (map (\<lambda>i. (i, g i)) idxs). isValid m i \<longrightarrow> text_value v"
    using tv by auto
  show ?thesis
    using map_of_graph [of g "rev (filter (isValid m) idxs)" j]
    by (simp add: iloc_write_all [OF st tv'] f rev_map)
qed

lemma iloc_write_all_dict:
  assumes st: "stores_text m" and tv: "\<forall>i \<in> set idxs. isValid m i \<longrightarrow> text_value (g i)"
  shows "iloc (write_all (dict_of (map (\<lambda>i. (i, g i)) idxs)) m) j =
     (if isValid m j \<and> j \<in> set idxs then store_flagged (g j) else iloc m j)"
proof -
  let ?d = "dict_of (map (\<lambda>i. (i, g i)) idxs)"
  have tv': "\<forall>(i, v) \<in> set ?d. isValid m i \<longrightarrow> text_value v"
  proof (clarify)
    fix i v assume "(i, v) \<in> set ?d" and "isValid m i"
    then have "map_of ?d i = Some v" using distinct_dict_of [of "map (\<lambda>i. (i, g i)) idxs"] by simp
    then have "i \<in> set idxs \<and> v = g i"
      by (simp add: map_of_dict_of_graph split: if_splits)
    with tv \<open>isValid m i\<close> show "text_value v" by blast
  qed
  show ?thesis
    by (simp add: iloc_write_all_distinct [OF distinct_dict_of st tv'] map_of_dict_of_graph)
qed

lemma iloc_flag [simp]: "iloc (m\<lparr>ignore_undo := b\<rparr>) j = iloc m j"
  by (simp add: iloc_def)

lemma isValid_flag [simp]: "isValid (m\<lparr>ignore_undo := b\<rparr>) j = isValid m j"
  by (simp add: isValid_def rowCount_def columnCount_def)

lemma isValid_write_all [simp]: "isValid (write_all ivs m) j = isValid m j"
  by (simp add: isValid_def rowCount_def columnCount_def)

section \<open>What the commands do to the cells\<close>

lemma isValid_cmd_redo [simp]: "isValid (cmd_redo push c m) j = isValid m j"
  by (cases c) (simp_all add: cmd_flagged isValid_def rowCount_def columnCount_def)

lemma isValid_cmd_undo [simp]: "isValid (cmd_undo push c m) j = isValid m j"
  by (cases c) (simp_all add: cmd_flagged isValid_def rowCount_def columnCount_def)

lemma store_flagged_blank [simp]: "store_flagged (Str []) = NA"
  by (simp add: store_flagged_def)

lemma iloc_redo_Edit:
  "stores_text m \<Longrightarrow> text_value new \<Longrightarrow>
   iloc (cmd_redo push (EditCellCommand i old new) m) j =
     (if isValid m i \<and> j = i then store_flagged new else iloc m j)"
  by (simp add: cmd_flagged iloc_write_cell)

lemma iloc_undo_Edit:
  "stores_text m \<Longrightarrow> text_value old \<Longrightarrow>
   iloc (cmd_undo push (EditCellCommand i old new) m) j =
     (if isValid m i \<and> j = i then store_flagged old else iloc m j)"
  by (simp add: cmd_flagged iloc_write_cell)

lemma iloc_redo_Delete:
  "stores_text m \<Longrightarrow>
   iloc (cmd_redo push (DeleteCellsCommand idxs olds) m) j =
     (if isValid m j \<and> j \<in> set idxs then NA else iloc m j)"
  by (simp add: cmd_flagged iloc_write_all_graph)

lemma iloc_undo_Delete:
  "stores_text m \<Longrightarrow> isValid m = isValid m0 \<Longrightarrow>
   iloc (cmd_undo push (DeleteCellsCommand_init m0 idxs) m) j =
     (if isValid m j \<and> j \<in> set idxs then store_flagged (data m0 j DisplayRole) else iloc m j)"
  by (simp add: DeleteCellsCommand_init_def cmd_flagged iloc_write_all_dict)

lemma iloc_redo_PasteMultiple:
  "stores_text m \<Longrightarrow>
   iloc (cmd_redo push (PasteMultipleCellsCommand idxs v olds) m) j =
     (if isValid m j \<and> j \<in> set idxs then store_flagged (Str v) else iloc m j)"
  by (simp add: cmd_flagged iloc_write_all_graph)

lemma iloc_undo_PasteMultiple:
  "stores_text m \<Longrightarrow> isValid m = isValid m0 \<Longrightarrow>
   iloc (cmd_undo push (PasteMultipleCellsCommand_init m0 idxs v) m) j =
     (if isValid m j \<and> j \<in> set idxs then store_flagged (data m0 j DisplayRole) else iloc m j)"
  by (simp add: PasteMultipleCellsCommand_init_def cmd_flagged iloc_write_all_dict)

section \<open>Push followed by undo\<close>

lemma iloc_stack [simp]: "iloc (m\<lparr>undo_stack := s\<rparr>) j = iloc m j"
  by (simp add: iloc_def)

lemma isValid_stack [simp]: "isValid (m\<lparr>undo_stack := s\<rparr>) j = isValid m j"
  by (simp add: isValid_def rowCount_def columnCount_def)

lemma iloc_push [simp]: "iloc (QUndoStack_push c m) j = iloc (cmd_redo reentrant_push c m) j"
  by (simp add: QUndoStack_push_def Let_def)

lemma isValid_push [simp]: "isValid (QUndoStack_push c m) j = isValid m j"
  by (simp add: QUndoStack_push_def Let_def)

lemma stack_push:
  "undo_stack m = Some st \<Longrightarrow> undo_stack (QUndoStack_push c m) = Some (record_command c st)"
  by (simp add: QUndoStack_push_def Let_def)

lemma record_command_top:
  assumes "index st \<le> length (commands st)"
  shows "index (record_command c st) = length (commands (record_command c st))"
    and "0 < index (record_command c st)"
    and "commands (record_command c st) ! (index (record_command c st) - 1) = c"
proof -
  define cmds where "cmds = take (index st) (commands st) @ [c]"
  define d where "d = (if undo_limit st = 0 \<or> length cmds \<le> undo_limit st then 0
                       else length cmds - undo_limit st)"
  have len: "length cmds = index st + 1" using assms by (simp add: cmds_def)
  have d: "d \<le> index st" using len by (auto simp add: d_def split: if_splits)
  have top: "cmds ! index st = c" using assms by (simp add: cmds_def nth_append)
  have c: "commands (record_command c st) = drop d cmds"
    and i: "index (record_command c st) = index st - d + 1"
    by (simp_all add: record_command_def Let_def cmds_def d_def)
  show "index (record_command c st) = length (commands (record_command c st))"
    unfolding c i using len d by simp
  show "0 < index (record_command c st)" unfolding i by simp
  have "drop d cmds ! (index st - d) = cmds ! (d + (index st - d))"
    using len d by (intro nth_drop) simp
  also have "\<dots> = c" using d top by simp
  finally show "commands (record_command c st) ! (index (record_command c st) - 1) = c"
    unfolding c i by simp
qed

lemma write_cell_stack: "write_cell (m\<lparr>undo_stack := s\<rparr>) i v = (write_cell m i v)\<lparr>undo_stack := s\<rparr>"
  by (auto simp add: write_cell_def emit_dataChanged_def iloc_set_def isValid_def rowCount_def
      columnCount_def split: sum.splits)

lemma write_all_stack_upd: "write_all ivs (m\<lparr>undo_stack := s\<rparr>) = (write_all ivs m)\<lparr>undo_stack := s\<rparr>"
  by (induction ivs arbitrary: m) (simp_all add: write_cell_stack)

lemma upd_swap:
  "m\<lparr>undo_stack := s, ignore_undo := b\<rparr> = m\<lparr>ignore_undo := b, undo_stack := s\<rparr>"
  by (cases m) simp

lemma write_cell_stack_flag:
  "write_cell (m\<lparr>undo_stack := s, ignore_undo := b\<rparr>) i v
   = (write_cell (m\<lparr>ignore_undo := b\<rparr>) i v)\<lparr>undo_stack := s\<rparr>"
  unfolding upd_swap by (rule write_cell_stack)

lemma write_all_stack_flag:
  "write_all ivs (m\<lparr>undo_stack := s, ignore_undo := b\<rparr>)
   = (write_all ivs (m\<lparr>ignore_undo := b\<rparr>))\<lparr>undo_stack := s\<rparr>"
  unfolding upd_swap by (rule write_all_stack_upd)

lemma cmd_undo_stack_upd:
  "cmd_undo push c (m\<lparr>undo_stack := s\<rparr>) = (cmd_undo push c m)\<lparr>undo_stack := s\<rparr>"
  by (cases c) (simp_all add: cmd_flagged write_cell_stack_flag write_all_stack_flag)

lemma cmd_redo_stack_upd:
  "cmd_redo push c (m\<lparr>undo_stack := s\<rparr>) = (cmd_redo push c m)\<lparr>undo_stack := s\<rparr>"
  by (cases c)
     (simp_all add: cmd_flagged write_cell_stack_flag write_all_stack_flag
        paste_targets_def model_index_def)

lemma undo_after_push:
  assumes "undo_stack m = Some st" and "index st \<le> length (commands st)"
  shows "QUndoStack_undo (QUndoStack_push c m)
         = (cmd_undo reentrant_push c (QUndoStack_push c m))
             \<lparr>undo_stack := Some ((record_command c st)\<lparr>index := index (record_command c st) - 1\<rparr>)\<rparr>"
  using record_command_top [OF assms(2), of c] stack_push [OF assms(1), of c]
  by (simp add: QUndoStack_undo_def Let_def)

section \<open>Clearing cells and undoing\<close>

lemma data_store_flagged:
  assumes "isValid m j" and "isValid m' j" and "data m j DisplayRole \<noteq> Str FIELD_NONE"
    and "iloc m' j = store_flagged (data m j DisplayRole)"
  shows "data m' j DisplayRole = data m j DisplayRole"
  using assms by (auto simp add: data_valid store_flagged_def)

lemma isValid_undo [simp]: "isValid (QUndoStack_undo m) j = isValid m j"
  by (simp add: QUndoStack_undo_def Let_def split: option.splits)

lemma shape_cmd_redo [simp]:
  "nrows (cmd_redo push c m) = nrows m" "ncols (cmd_redo push c m) = ncols m"
  by (cases c; simp add: cmd_flagged)+

lemma shape_cmd_undo [simp]:
  "nrows (cmd_undo push c m) = nrows m" "ncols (cmd_undo push c m) = ncols m"
  by (cases c; simp add: cmd_flagged)+

lemma shape_push [simp]:
  "nrows (QUndoStack_push c m) = nrows m" "ncols (QUndoStack_push c m) = ncols m"
  by (simp_all add: QUndoStack_push_def Let_def)

lemma iloc_undo_after_push:
  assumes "undo_stack m = Some st" and "index st \<le> length (commands st)"
  shows "iloc (QUndoStack_undo (QUndoStack_push c m)) j
         = iloc (cmd_undo reentrant_push c (cmd_redo reentrant_push c m)) j"
proof -
  have "iloc (cmd_undo reentrant_push c (QUndoStack_push c m)) j
        = iloc (cmd_undo reentrant_push c (cmd_redo reentrant_push c m)) j"
    by (simp add: QUndoStack_push_def Let_def cmd_undo_stack_upd)
  then show ?thesis by (simp add: undo_after_push [OF assms(1,2)])
qed

lemma clear_selected_cells_push:
  "undo_stack m = Some st \<Longrightarrow>
   clear_selected_cells m idxs = QUndoStack_push (DeleteCellsCommand_init m idxs) m"
  by (simp add: clear_selected_cells_def)

lemma iloc_clear:
  assumes "undo_stack m = Some st" and sc: "stores_text m"
  shows "iloc (clear_selected_cells m idxs) j
         = (if isValid m j \<and> j \<in> set idxs then NA else iloc m j)"
  by (simp add: clear_selected_cells_push [OF assms(1)] DeleteCellsCommand_init_def
      iloc_redo_Delete [OF sc])

lemma iloc_clear_undo:
  assumes "undo_stack m = Some st" and "index st \<le> length (commands st)"
    and sc: "stores_text m"
  shows "iloc (QUndoStack_undo (clear_selected_cells m idxs)) j
         = (if isValid m j \<and> j \<in> set idxs then store_flagged (data m j DisplayRole)
            else iloc m j)"
proof -
  let ?c = "DeleteCellsCommand_init m idxs"
  let ?m1 = "cmd_redo reentrant_push ?c m"
  have v: "isValid ?m1 = isValid m" by (simp add: fun_eq_iff)
  have s1: "stores_text ?m1" using sc by simp
  have r: "iloc ?m1 j = (if isValid m j \<and> j \<in> set idxs then NA else iloc m j)"
    by (simp add: DeleteCellsCommand_init_def iloc_redo_Delete [OF sc])
  show ?thesis
    unfolding clear_selected_cells_push [OF assms(1)] iloc_undo_after_push [OF assms(1,2)]
      iloc_undo_Delete [OF s1 v] r
    by (simp add: fun_eq_iff)
qed

text \<open>
  What follows for a state \<open>m'\<close> of the same shape in which the cells of a selection hold
  what \<open>setData\<close> under the flag makes of their former display text.
\<close>

lemma restored_facts:
  assumes v: "\<And>j. isValid m' j = isValid m j"
    and i: "\<And>j. iloc m' j = (if isValid m j \<and> j \<in> S then store_flagged (data m j DisplayRole)
                              else iloc m j)"
  shows "data m j DisplayRole \<noteq> Str FIELD_NONE \<Longrightarrow> data m' j DisplayRole = data m j DisplayRole"
    and "iloc m j = NA \<or> (\<exists>s. iloc m j = Str s \<and> s \<noteq> [] \<and> s \<noteq> FIELD_NONE) \<Longrightarrow>
         iloc m' j = iloc m j"
    and "isValid m j \<and> j \<in> S \<and> iloc m j = Str [] \<Longrightarrow> iloc m' j = NA"
proof -
  show "data m' j DisplayRole = data m j DisplayRole"
    if "data m j DisplayRole \<noteq> Str FIELD_NONE"
  proof (cases "isValid m j")
    case True
    then show ?thesis using that
      by (cases "j \<in> S") (auto simp add: data_valid v i store_flagged_def)
  next
    case False
    then show ?thesis by (simp add: data_invalid v)
  qed
  show "iloc m' j = iloc m j"
    if "iloc m j = NA \<or> (\<exists>s. iloc m j = Str s \<and> s \<noteq> [] \<and> s \<noteq> FIELD_NONE)"
    using that by (auto simp add: i data_valid store_flagged_def)
  show "iloc m' j = NA" if "isValid m j \<and> j \<in> S \<and> iloc m j = Str []"
    using that by (simp add: i data_valid)
qed

text \<open>
  Claim C5, as amended. Clearing a selection pushes exactly one command (the stack after
  it is the old stack with that one \<open>DeleteCellsCommand\<close> recorded). In a frame that
  stores texts, it sets every selected cell of the table to the missing value, and one
  undo then gives every selected cell the text that \<open>data\<close> showed for it before, stored
  by \<open>setData\<close> under the flag: the displayed text of a cell is restored unless that text
  was the marker, and a cell that held the missing value or a non-empty string other than
  the marker gets back exactly that value. A cell that held the empty string comes back as
  the missing value: the two are not told apart. Cells outside the selection are untouched.
\<close>

theorem C5_delete_then_undo_restores_text:
  assumes "undo_stack m = Some st" and "index st \<le> length (commands st)"
  shows "clear_selected_cells m idxs = QUndoStack_push (DeleteCellsCommand_init m idxs) m
       \<and> undo_stack (clear_selected_cells m idxs)
           = Some (record_command (DeleteCellsCommand_init m idxs) st)
       \<and> (stores_text m \<longrightarrow>
           (\<forall>j. iloc (clear_selected_cells m idxs) j
               = (if isValid m j \<and> j \<in> set idxs then NA else iloc m j))
         \<and> (\<forall>j. iloc (QUndoStack_undo (clear_selected_cells m idxs)) j
               = (if isValid m j \<and> j \<in> set idxs then store_flagged (data m j DisplayRole)
                  else iloc m j))
         \<and> (\<forall>j. data m j DisplayRole \<noteq> Str FIELD_NONE \<longrightarrow>
               data (QUndoStack_undo (clear_selected_cells m idxs)) j DisplayRole
               = data m j DisplayRole)
         \<and> (\<forall>j. iloc m j = NA \<or> (\<exists>s. iloc m j = Str s \<and> s \<noteq> [] \<and> s \<noteq> FIELD_NONE) \<longrightarrow>
               iloc (QUndoStack_undo (clear_selected_cells m idxs)) j = iloc m j)
         \<and> (\<forall>j. isValid m j \<and> j \<in> set idxs \<and> iloc m j = Str [] \<longrightarrow>
               iloc (QUndoStack_undo (clear_selected_cells m idxs)) j = NA))"
proof -
  let ?m' = "QUndoStack_undo (clear_selected_cells m idxs)"
  have 0: "clear_selected_cells m idxs = QUndoStack_push (DeleteCellsCommand_init m idxs) m"
    by (rule clear_selected_cells_push [OF assms(1)])
  have 1: "undo_stack (clear_selected_cells m idxs)
           = Some (record_command (DeleteCellsCommand_init m idxs) st)"
    by (simp add: clear_selected_cells_push [OF assms(1)] stack_push [OF assms(1)])
  have v0: "isValid (clear_selected_cells m idxs) j = isValid m j" for j
    by (simp add: clear_selected_cells_push [OF assms(1)])
  have v: "isValid ?m' j = isValid m j" for j
    by (simp add: v0)
  have r: "(\<forall>j. iloc (clear_selected_cells m idxs) j
               = (if isValid m j \<and> j \<in> set idxs then NA else iloc m j))
         \<and> (\<forall>j. iloc ?m' j
               = (if isValid m j \<and> j \<in> set idxs then store_flagged (data m j DisplayRole)
                  else iloc m j))
         \<and> (\<forall>j. data m j DisplayRole \<noteq> Str FIELD_NONE \<longrightarrow>
               data ?m' j DisplayRole = data m j DisplayRole)
         \<and> (\<forall>j. iloc m j = NA \<or> (\<exists>s. iloc m j = Str s \<and> s \<noteq> [] \<and> s \<noteq> FIELD_NONE) \<longrightarrow>
               iloc ?m' j = iloc m j)
         \<and> (\<forall>j. isValid m j \<and> j \<in> set idxs \<and> iloc m j = Str [] \<longrightarrow> iloc ?m' j = NA)"
    if sc: "stores_text m"
  proof -
    have 2: "iloc (clear_selected_cells m idxs) j
                 = (if isValid m j \<and> j \<in> set idxs then NA else iloc m j)" for j
      by (rule iloc_clear [OF assms(1) sc])
    have 3: "iloc ?m' j = (if isValid m j \<and> j \<in> set idxs then store_flagged (data m j DisplayRole)
                    else iloc m j)" for j
      by (rule iloc_clear_undo [OF assms sc])
    note f = restored_facts [of ?m' m "set idxs", OF v 3]
    show ?thesis using 2 3 f by blast
  qed
  show ?thesis using 0 1 r by blast
qed

lemma table0_stack:
  "undo_stack table0 = Some \<lparr>commands = [], index = 0, undo_limit = 50\<rparr>"
  by (simp add: table0_def)

lemma table0_wf:
  "index \<lparr>commands = [], index = 0, undo_limit = 50\<rparr>
   \<le> length (commands \<lparr>commands = [], index = 0, undo_limit = 50\<rparr>)"
  by simp

lemma table0_iloc [simp]:
  "iloc table0 (QModelIndex 0 0) = Str []"
  "iloc table0 (QModelIndex 0 (Suc 0)) = Str FIELD_NONE"
  "iloc table0 (QModelIndex 0 2) = Str (lit ''a'')"
  by (simp_all add: iloc_def table0_def)

lemma table0_data [simp]:
  "data table0 (QModelIndex 0 0) DisplayRole = Str []"
  "data table0 (QModelIndex 0 (Suc 0)) DisplayRole = Str FIELD_NONE"
  "data table0 (QModelIndex 0 2) DisplayRole = Str (lit ''a'')"
  by (simp_all add: data_valid)

lemma FIELD_NONE_neq_sym [simp]:
  "[] \<noteq> FIELD_NONE" "FIELD_NONE \<noteq> lit ''a''" "FIELD_NONE \<noteq> lit ''b''"
  by (simp_all add: FIELD_NONE_def lit_def)

lemma lit_a_nonempty [simp]: "lit ''a'' \<noteq> []" "lit ''b'' \<noteq> []"
  by (simp_all add: lit_def)

theorem C5_delete_then_undo_restores_text_witness:
  "stores_text table0
   \<and> undo_stack table0 = Some \<lparr>commands = [], index = 0, undo_limit = 50\<rparr>
   \<and> index \<lparr>commands = [], index = 0, undo_limit = 50\<rparr>
       \<le> length (commands \<lparr>commands = [], index = 0, undo_limit = 50\<rparr>)
   \<and> map_option commands
        (undo_stack (clear_selected_cells table0 [QModelIndex 0 0, QModelIndex 0 1, QModelIndex 0 2]))
      = Some [DeleteCellsCommand_init table0 [QModelIndex 0 0, QModelIndex 0 1, QModelIndex 0 2]]
   \<and> iloc (clear_selected_cells table0 [QModelIndex 0 0, QModelIndex 0 1, QModelIndex 0 2])
        (QModelIndex 0 2) = NA
   \<and> iloc (QUndoStack_undo
            (clear_selected_cells table0 [QModelIndex 0 0, QModelIndex 0 1, QModelIndex 0 2]))
        (QModelIndex 0 2) = Str (lit ''a'')
   \<and> data (QUndoStack_undo
            (clear_selected_cells table0 [QModelIndex 0 0, QModelIndex 0 1, QModelIndex 0 2]))
        (QModelIndex 0 0) DisplayRole = Str []"
proof -
  have sc: "stores_text table0" by simp
  note th0 = C5_delete_then_undo_restores_text [OF table0_stack table0_wf,
      of "[QModelIndex 0 0, QModelIndex 0 1, QModelIndex 0 2]"]
  from th0 sc have th: "(\<forall>j. iloc (clear_selected_cells table0
                 [QModelIndex 0 0, QModelIndex 0 1, QModelIndex 0 2]) j
               = (if isValid table0 j \<and> j \<in> set [QModelIndex 0 0, QModelIndex 0 1, QModelIndex 0 2]
                  then NA else iloc table0 j))
         \<and> (\<forall>j. data table0 j DisplayRole \<noteq> Str FIELD_NONE \<longrightarrow>
               data (QUndoStack_undo (clear_selected_cells table0
                 [QModelIndex 0 0, QModelIndex 0 1, QModelIndex 0 2])) j DisplayRole
               = data table0 j DisplayRole)
         \<and> (\<forall>j. iloc table0 j = NA \<or> (\<exists>s. iloc table0 j = Str s \<and> s \<noteq> [] \<and> s \<noteq> FIELD_NONE) \<longrightarrow>
               iloc (QUndoStack_undo (clear_selected_cells table0
                 [QModelIndex 0 0, QModelIndex 0 1, QModelIndex 0 2])) j = iloc table0 j)"
    by blast
  have d: "data table0 (QModelIndex 0 0) DisplayRole \<noteq> Str FIELD_NONE" by simp
  have s: "\<exists>s. iloc table0 (QModelIndex 0 2) = Str s \<and> s \<noteq> [] \<and> s \<noteq> FIELD_NONE" by simp
  from th0 have 1: "undo_stack (clear_selected_cells table0 [QModelIndex 0 0, QModelIndex 0 1, QModelIndex 0 2])
           = Some (record_command
                (DeleteCellsCommand_init table0 [QModelIndex 0 0, QModelIndex 0 1, QModelIndex 0 2])
                \<lparr>commands = [], index = 0, undo_limit = 50\<rparr>)"
    by blast
  from th have 2: "iloc (clear_selected_cells table0 [QModelIndex 0 0, QModelIndex 0 1, QModelIndex 0 2])
        (QModelIndex 0 2) = NA"
    by simp
  from th s have 3: "iloc (QUndoStack_undo
            (clear_selected_cells table0 [QModelIndex 0 0, QModelIndex 0 1, QModelIndex 0 2]))
        (QModelIndex 0 2) = iloc table0 (QModelIndex 0 2)"
    by blast
  from th d have 4: "data (QUndoStack_undo
            (clear_selected_cells table0 [QModelIndex 0 0, QModelIndex 0 1, QModelIndex 0 2]))
        (QModelIndex 0 0) DisplayRole = data table0 (QModelIndex 0 0) DisplayRole"
    by blast
  have 5: "map_option commands
        (undo_stack (clear_selected_cells table0 [QModelIndex 0 0, QModelIndex 0 1, QModelIndex 0 2]))
      = Some [DeleteCellsCommand_init table0 [QModelIndex 0 0, QModelIndex 0 1, QModelIndex 0 2]]"
    unfolding 1 by (simp add: record_command_def)
  show ?thesis using 2 3 4 5 by (simp add: table0_stack)
qed

text \<open>
  Claim C5 as stated fails: a cell that holds the empty string is cleared and the clearing
  is undone; the cell then holds the missing value, not the empty string. A cell that holds
  the marker text comes back as the missing value too, and shows as blank.
\<close>

theorem C5_counterexample:
  "iloc table0 (QModelIndex 0 0) = Str []
   \<and> iloc (QUndoStack_undo (clear_selected_cells table0 [QModelIndex 0 0, QModelIndex 0 1]))
        (QModelIndex 0 0) = NA
   \<and> data table0 (QModelIndex 0 1) DisplayRole = Str FIELD_NONE
   \<and> data (QUndoStack_undo (clear_selected_cells table0 [QModelIndex 0 0, QModelIndex 0 1]))
        (QModelIndex 0 1) DisplayRole = Str []"
proof -
  have v: "isValid (QUndoStack_undo (clear_selected_cells table0 [QModelIndex 0 0, QModelIndex 0 1]))
             (QModelIndex 0 (Suc 0))"
    by (simp add: clear_selected_cells_push [OF table0_stack])
  show ?thesis
    using v
    by (simp add: iloc_clear_undo [OF table0_stack table0_wf table0_stores(1)] data_valid store_flagged_def)
qed

section \<open>Pasting one value into a selection\<close>

lemma py_split_nonempty: "py_split sep s \<noteq> []"
  by (induction s) (simp_all split: list.splits)

lemma py_split_single: "py_split sep s = [v] \<Longrightarrow> v = s"
proof (induction s arbitrary: v)
  case Nil
  then show ?case by simp
next
  case (Cons x xs)
  show ?case
  proof (cases "x = sep")
    case True
    with Cons.prems show ?thesis by (simp add: py_split_nonempty)
  next
    case False
    with Cons.prems obtain w where w: "py_split sep xs = [w]" and v: "v = x # w"
      by (auto simp add: py_split_nonempty split: list.splits)
    from Cons.IH [OF w] v show ?thesis by simp
  qed
qed

lemma data_matrix_Nil [simp]: "data_matrix [] = []"
  by (simp add: data_matrix_def py_strip_def)

lemma data_matrix_single:
  assumes "data_matrix t = [[v]]"
  shows "v \<noteq> []" and "t \<noteq> []"
proof -
  from assms obtain r where
    r: "filter (\<lambda>row_text. py_strip row_text \<noteq> []) (py_split 0x0A (py_strip t)) = [r]"
    and s: "py_split 0x09 r = [v]"
    by (auto simp add: data_matrix_def map_eq_Cons_conv)
  from r have "r \<in> set (filter (\<lambda>row_text. py_strip row_text \<noteq> []) (py_split 0x0A (py_strip t)))"
    by simp
  then have "py_strip r \<noteq> []" by simp
  then have "r \<noteq> []" by (auto simp add: py_strip_def)
  with py_split_single [OF s] show "v \<noteq> []" by simp
  from assms show "t \<noteq> []" by auto
qed

lemma paste_single:
  assumes "undo_stack m = Some st" and "data_matrix t = [[v]]"
  shows "paste_clipboard_data m t idxs
         = (QUndoStack_push (PasteMultipleCellsCommand_init m idxs v) m, Pasted)"
  using assms data_matrix_single(2) [OF assms(2)]
  by (simp add: paste_clipboard_data_def push_or_redo_def Let_def)

lemma iloc_paste_single:
  assumes "undo_stack m = Some st" and "data_matrix t = [[v]]" and sc: "stores_text m"
  shows "iloc (fst (paste_clipboard_data m t idxs)) j
         = (if isValid m j \<and> j \<in> set idxs then store_flagged (Str v) else iloc m j)"
  by (simp add: paste_single [OF assms(1,2)] PasteMultipleCellsCommand_init_def
      iloc_redo_PasteMultiple [OF sc])

lemma iloc_paste_single_undo:
  assumes "undo_stack m = Some st" and "index st \<le> length (commands st)"
    and "data_matrix t = [[v]]" and sc: "stores_text m"
  shows "iloc (QUndoStack_undo (fst (paste_clipboard_data m t idxs))) j
         = (if isValid m j \<and> j \<in> set idxs then store_flagged (data m j DisplayRole)
            else iloc m j)"
proof -
  let ?c = "PasteMultipleCellsCommand_init m idxs v"
  let ?m1 = "cmd_redo reentrant_push ?c m"
  have vl: "isValid ?m1 = isValid m" by (simp add: fun_eq_iff)
  have s1: "stores_text ?m1" using sc by simp
  have r: "iloc ?m1 j = (if isValid m j \<and> j \<in> set idxs then store_flagged (Str v) else iloc m j)"
    by (simp add: PasteMultipleCellsCommand_init_def iloc_redo_PasteMultiple [OF sc])
  show ?thesis
    unfolding paste_single [OF assms(1) assms(3)] fst_conv
      iloc_undo_after_push [OF assms(1) assms(2)] iloc_undo_PasteMultiple [OF s1 vl] r
    by (simp add: fun_eq_iff)
qed

lemma isValid_paste_single:
  assumes "undo_stack m = Some st" and "data_matrix t = [[v]]"
  shows "isValid (fst (paste_clipboard_data m t idxs)) j = isValid m j"
  by (simp add: paste_single [OF assms])

text \<open>
  Claim C7, as amended. When the text of the clipboard parses to one row with one value
  (the value is then not empty), pasting into a selection of any size succeeds and pushes
  exactly one command, a \<open>PasteMultipleCellsCommand\<close> for the whole selection. In a frame
  that stores texts, the value is then in every selected cell of the table (a value equal
  to the marker is stored as the missing value), and one undo gives every selected cell
  the text that it displayed before: the displayed text is restored unless it was the
  marker, a cell that held the missing value or a non-empty string other than the marker
  gets back exactly that value, and a cell that held the empty string comes back as the
  missing value. Cells outside the selection are untouched.
\<close>

theorem C7_scalar_paste_and_undo:
  assumes "undo_stack m = Some st" and "index st \<le> length (commands st)"
    and "data_matrix clipboard_text = [[v]]"
  shows "v \<noteq> []
       \<and> paste_clipboard_data m clipboard_text idxs
           = (QUndoStack_push (PasteMultipleCellsCommand_init m idxs v) m, Pasted)
       \<and> undo_stack (fst (paste_clipboard_data m clipboard_text idxs))
           = Some (record_command (PasteMultipleCellsCommand_init m idxs v) st)
       \<and> (stores_text m \<longrightarrow>
           (\<forall>j. iloc (fst (paste_clipboard_data m clipboard_text idxs)) j
               = (if isValid m j \<and> j \<in> set idxs
                  then (if v = FIELD_NONE then NA else Str v) else iloc m j))
         \<and> (\<forall>j. iloc (QUndoStack_undo (fst (paste_clipboard_data m clipboard_text idxs))) j
               = (if isValid m j \<and> j \<in> set idxs then store_flagged (data m j DisplayRole)
                  else iloc m j))
         \<and> (\<forall>j. data m j DisplayRole \<noteq> Str FIELD_NONE \<longrightarrow>
               data (QUndoStack_undo (fst (paste_clipboard_data m clipboard_text idxs))) j DisplayRole
               = data m j DisplayRole)
         \<and> (\<forall>j. iloc m j = NA \<or> (\<exists>s. iloc m j = Str s \<and> s \<noteq> [] \<and> s \<noteq> FIELD_NONE) \<longrightarrow>
               iloc (QUndoStack_undo (fst (paste_clipboard_data m clipboard_text idxs))) j = iloc m j)
         \<and> (\<forall>j. isValid m j \<and> j \<in> set idxs \<and> iloc m j = Str [] \<longrightarrow>
               iloc (QUndoStack_undo (fst (paste_clipboard_data m clipboard_text idxs))) j = NA))"
proof -
  let ?m1 = "fst (paste_clipboard_data m clipboard_text idxs)"
  let ?m2 = "QUndoStack_undo ?m1"
  have ne: "v \<noteq> []" by (rule data_matrix_single(1) [OF assms(3)])
  have 1: "paste_clipboard_data m clipboard_text idxs
           = (QUndoStack_push (PasteMultipleCellsCommand_init m idxs v) m, Pasted)"
    by (rule paste_single [OF assms(1) assms(3)])
  have 2: "undo_stack ?m1 = Some (record_command (PasteMultipleCellsCommand_init m idxs v) st)"
    by (simp add: paste_single [OF assms(1) assms(3)] stack_push [OF assms(1)])
  have v: "isValid ?m2 j = isValid m j" for j
    by (simp add: isValid_paste_single [OF assms(1) assms(3)])
  have r: "(\<forall>j. iloc ?m1 j
               = (if isValid m j \<and> j \<in> set idxs
                  then (if v = FIELD_NONE then NA else Str v) else iloc m j))
         \<and> (\<forall>j. iloc ?m2 j
               = (if isValid m j \<and> j \<in> set idxs then store_flagged (data m j DisplayRole)
                  else iloc m j))
         \<and> (\<forall>j. data m j DisplayRole \<noteq> Str FIELD_NONE \<longrightarrow>
               data ?m2 j DisplayRole = data m j DisplayRole)
         \<and> (\<forall>j. iloc m j = NA \<or> (\<exists>s. iloc m j = Str s \<and> s \<noteq> [] \<and> s \<noteq> FIELD_NONE) \<longrightarrow>
               iloc ?m2 j = iloc m j)
         \<and> (\<forall>j. isValid m j \<and> j \<in> set idxs \<and> iloc m j = Str [] \<longrightarrow> iloc ?m2 j = NA)"
    if sc: "stores_text m"
  proof -
    have 3: "iloc ?m1 j = (if isValid m j \<and> j \<in> set idxs
                    then (if v = FIELD_NONE then NA else Str v) else iloc m j)" for j
      using ne by (simp add: iloc_paste_single [OF assms(1) assms(3) sc] store_flagged_def)
    have 4: "iloc ?m2 j = (if isValid m j \<and> j \<in> set idxs then store_flagged (data m j DisplayRole)
                    else iloc m j)" for j
      by (rule iloc_paste_single_undo [OF assms sc])
    note f = restored_facts [of ?m2 m "set idxs", OF v 4]
    show ?thesis using 3 4 f by blast
  qed
  show ?thesis using ne 1 2 r by blast
qed

lemma data_matrix_b: "data_matrix (lit ''b'' @ [0x0A, 0x0A]) = [[lit ''b'']]"
  by (simp add: data_matrix_def py_strip_def is_space_def lit_def)

lemma data_matrix_marker: "data_matrix FIELD_NONE = [[FIELD_NONE]]"
  by (simp add: data_matrix_def py_strip_def is_space_def FIELD_NONE_def)

theorem C7_scalar_paste_and_undo_witness:
  "stores_text table0
   \<and> undo_stack table0 = Some \<lparr>commands = [], index = 0, undo_limit = 50\<rparr>
   \<and> index \<lparr>commands = [], index = 0, undo_limit = 50\<rparr>
       \<le> length (commands \<lparr>commands = [], index = 0, undo_limit = 50\<rparr>)
   \<and> data_matrix (lit ''b'' @ [0x0A, 0x0A]) = [[lit ''b'']]
   \<and> snd (paste_clipboard_data table0 (lit ''b'' @ [0x0A, 0x0A])
            [QModelIndex 0 0, QModelIndex 0 1, QModelIndex 0 2]) = Pasted
   \<and> map_option commands (undo_stack (fst (paste_clipboard_data table0 (lit ''b'' @ [0x0A, 0x0A])
            [QModelIndex 0 0, QModelIndex 0 1, QModelIndex 0 2])))
      = Some [PasteMultipleCellsCommand_init table0
                [QModelIndex 0 0, QModelIndex 0 1, QModelIndex 0 2] (lit ''b'')]
   \<and> map (iloc (fst (paste_clipboard_data table0 (lit ''b'' @ [0x0A, 0x0A])
            [QModelIndex 0 0, QModelIndex 0 1, QModelIndex 0 2])))
         [QModelIndex 0 0, QModelIndex 0 1, QModelIndex 0 2]
      = [Str (lit ''b''), Str (lit ''b''), Str (lit ''b'')]
   \<and> iloc (QUndoStack_undo (fst (paste_clipboard_data table0 (lit ''b'' @ [0x0A, 0x0A])
            [QModelIndex 0 0, QModelIndex 0 1, QModelIndex 0 2]))) (QModelIndex 0 2)
      = Str (lit ''a'')"
proof -
  let ?idxs = "[QModelIndex 0 0, QModelIndex 0 1, QModelIndex 0 2]"
  let ?p = "paste_clipboard_data table0 (lit ''b'' @ [0x0A, 0x0A]) ?idxs"
  note th = C7_scalar_paste_and_undo [OF table0_stack table0_wf data_matrix_b, of ?idxs]
  have s: "\<exists>s. iloc table0 (QModelIndex 0 2) = Str s \<and> s \<noteq> [] \<and> s \<noteq> FIELD_NONE" by simp
  from th have e: "?p = (QUndoStack_push (PasteMultipleCellsCommand_init table0 ?idxs (lit ''b''))
                          table0, Pasted)"
    by blast
  have 1: "snd ?p = Pasted" unfolding e by simp
  from th have 2: "undo_stack (fst ?p)
      = Some (record_command (PasteMultipleCellsCommand_init table0 ?idxs (lit ''b''))
                \<lparr>commands = [], index = 0, undo_limit = 50\<rparr>)"
    by blast
  from th table0_stores(1) have 3: "iloc (fst ?p) j
               = (if isValid table0 j \<and> j \<in> set ?idxs
                  then (if lit ''b'' = FIELD_NONE then NA else Str (lit ''b'')) else iloc table0 j)" for j
    by blast
  from th table0_stores(1) s
  have 4: "iloc (QUndoStack_undo (fst ?p)) (QModelIndex 0 2) = iloc table0 (QModelIndex 0 2)"
    by blast
  have 5: "map_option commands (undo_stack (fst ?p))
      = Some [PasteMultipleCellsCommand_init table0 ?idxs (lit ''b'')]"
    unfolding 2 by (simp add: record_command_def)
  have 6: "map (iloc (fst ?p)) ?idxs = [Str (lit ''b''), Str (lit ''b''), Str (lit ''b'')]"
    using 3 [of "QModelIndex 0 0"] 3 [of "QModelIndex 0 1"] 3 [of "QModelIndex 0 2"] by simp
  show ?thesis using 1 4 5 6 data_matrix_b by (simp add: table0_stack)
qed

text \<open>
  Claim C7 as stated fails. The value \<open>b\<close> is pasted over a cell that holds the empty
  string and a cell that holds the marker text, and the paste is undone: the first cell then
  holds the missing value, and the second shows as blank. And when the value pasted is the
  marker text itself, the selected cell receives the missing value instead of that value.
\<close>

theorem C7_counterexample:
  "data_matrix (lit ''b'' @ [0x0A, 0x0A]) = [[lit ''b'']]
   \<and> iloc table0 (QModelIndex 0 0) = Str []
   \<and> iloc (QUndoStack_undo (fst (paste_clipboard_data table0 (lit ''b'' @ [0x0A, 0x0A])
              [QModelIndex 0 0, QModelIndex 0 1]))) (QModelIndex 0 0) = NA
   \<and> data table0 (QModelIndex 0 1) DisplayRole = Str FIELD_NONE
   \<and> data (QUndoStack_undo (fst (paste_clipboard_data table0 (lit ''b'' @ [0x0A, 0x0A])
              [QModelIndex 0 0, QModelIndex 0 1]))) (QModelIndex 0 1) DisplayRole = Str []
   \<and> data_matrix FIELD_NONE = [[FIELD_NONE]]
   \<and> iloc (fst (paste_clipboard_data table0 FIELD_NONE [QModelIndex 0 2])) (QModelIndex 0 2) = NA"
proof -
  have v: "isValid (QUndoStack_undo (fst (paste_clipboard_data table0 (lit ''b'' @ [0x0A, 0x0A])
              [QModelIndex 0 0, QModelIndex 0 1]))) (QModelIndex 0 (Suc 0))"
    by (simp add: isValid_paste_single [OF table0_stack data_matrix_b])
  have 1: "iloc (QUndoStack_undo (fst (paste_clipboard_data table0 (lit ''b'' @ [0x0A, 0x0A])
              [QModelIndex 0 0, QModelIndex 0 1]))) (QModelIndex 0 0) = NA"
    by (simp add: iloc_paste_single_undo [OF table0_stack table0_wf data_matrix_b table0_stores(1)])
  have 2: "data (QUndoStack_undo (fst (paste_clipboard_data table0 (lit ''b'' @ [0x0A, 0x0A])
              [QModelIndex 0 0, QModelIndex 0 1]))) (QModelIndex 0 1) DisplayRole = Str []"
    using v
    by (simp add: data_valid iloc_paste_single_undo [OF table0_stack table0_wf data_matrix_b table0_stores(1)]
        store_flagged_def)
  have 3: "iloc (fst (paste_clipboard_data table0 FIELD_NONE [QModelIndex 0 2])) (QModelIndex 0 2) = NA"
    by (simp add: iloc_paste_single [OF table0_stack data_matrix_marker table0_stores(1)] store_flagged_def)
  show ?thesis using 1 2 3 data_matrix_b data_matrix_marker by simp
qed

section \<open>Pasting a block\<close>

lemma write_all_append: "write_all (xs @ ys) m = write_all ys (write_all xs m)"
  by (simp add: write_all_def)

lemma iloc_write_row:
  assumes sc: "stores_text m"
  shows "iloc (write_all (map (\<lambda>(i, v). (i, Str v))
                     (map (\<lambda>(c, v). (QModelIndex r (c0 + c), v)) (enumerate_from0 vs))) m) j
   = (if isValid m j \<and> row j = r \<and> c0 \<le> column j \<and> column j - c0 < length vs
      then store_flagged (Str (vs ! (column j - c0))) else iloc m j)"
proof -
  let ?ks = "map (\<lambda>c. QModelIndex r (c0 + c)) [0..<length vs]"
  have ivs: "map (\<lambda>(i, v). (i, Str v))
               (map (\<lambda>(c, v). (QModelIndex r (c0 + c), v)) (enumerate_from0 vs))
             = zip ?ks (map Str vs)"
    by (simp add: enumerate_from0_def zip_map_map case_prod_unfold comp_def)
  have d: "distinct ?ks" by (simp add: distinct_map inj_on_def)
  have l: "length ?ks = length (map Str vs)" by simp
  have k: "map fst (zip ?ks (map Str vs)) = ?ks" using l by (simp only: map_fst_zip)
  have lookup: "map_of (zip ?ks (map Str vs)) j
     = (if row j = r \<and> c0 \<le> column j \<and> column j - c0 < length vs
        then Some (Str (vs ! (column j - c0))) else None)"
  proof (cases "row j = r \<and> c0 \<le> column j \<and> column j - c0 < length vs")
    case True
    then have j: "j = ?ks ! (column j - c0)" by (cases j) simp
    have "map_of (zip ?ks (map Str vs)) (?ks ! (column j - c0))
          = Some (map Str vs ! (column j - c0))"
      using l d True by (intro map_of_zip_nth) simp_all
    with True j show ?thesis by simp
  next
    case False
    then have "j \<notin> set ?ks" by (cases j) auto
    then have n: "map_of (zip ?ks (map Str vs)) j = None"
      using map_of_zip_is_None [OF l, of j] by blast
    show ?thesis unfolding n using False by simp
  qed
  have tv: "\<forall>(i, v) \<in> set (zip ?ks (map Str vs)). isValid m i \<longrightarrow> text_value v"
    by (auto dest!: set_zip_rightD)
  have dk: "distinct (map fst (zip ?ks (map Str vs)))" unfolding k by (rule d)
  show ?thesis
    unfolding ivs
    by (simp add: iloc_write_all_distinct [OF dk sc tv] lookup)
qed

lemma zip_upt_Cons:
  "zip [k..<k + length (x # xs)] (x # xs) = (k, x) # zip [Suc k..<Suc k + length xs] xs"
  by (simp add: upt_conv_Cons del: upt_Suc)

lemma iloc_write_rows:
  "stores_text m \<Longrightarrow>
   iloc (write_all (map (\<lambda>(i, v). (i, Str v))
           (concat (map (\<lambda>(r, vs). map (\<lambda>(c, v). (QModelIndex (r0 + r) (c0 + c), v))
                                         (enumerate_from0 vs))
                        (zip [k..<k + length pd] pd)))) m) j
   = (if isValid m j \<and> r0 + k \<le> row j \<and> c0 \<le> column j
         \<and> row j - (r0 + k) < length pd
         \<and> column j - c0 < length (pd ! (row j - (r0 + k)))
      then store_flagged (Str (pd ! (row j - (r0 + k)) ! (column j - c0)))
      else iloc m j)"
proof (induction pd arbitrary: k m)
  case Nil
  then show ?case by simp
next
  case (Cons vs pd)
  let ?rowf = "\<lambda>(r, vs). map (\<lambda>(c, v). (QModelIndex (r0 + r) (c0 + c), v)) (enumerate_from0 vs)"
  let ?m1 = "write_all (map (\<lambda>(i, v). (i, Str v))
                 (map (\<lambda>(c, v). (QModelIndex (r0 + k) (c0 + c), v)) (enumerate_from0 vs))) m"
  have split: "write_all (map (\<lambda>(i, v). (i, Str v))
                  (concat (map ?rowf (zip [k..<k + length (vs # pd)] (vs # pd))))) m
        = write_all (map (\<lambda>(i, v). (i, Str v))
                  (concat (map ?rowf (zip [Suc k..<Suc k + length pd] pd)))) ?m1"
    unfolding zip_upt_Cons by (simp add: write_all_append)
  have ih: "iloc (write_all (map (\<lambda>(i, v). (i, Str v))
                  (concat (map ?rowf (zip [Suc k..<Suc k + length pd] pd)))) ?m1) j
     = (if isValid ?m1 j \<and> r0 + Suc k \<le> row j \<and> c0 \<le> column j
         \<and> row j - (r0 + Suc k) < length pd
         \<and> column j - c0 < length (pd ! (row j - (r0 + Suc k)))
      then store_flagged (Str (pd ! (row j - (r0 + Suc k)) ! (column j - c0)))
      else iloc ?m1 j)"
    by (rule Cons.IH) (simp add: Cons.prems)
  have m1: "iloc ?m1 j = (if isValid m j \<and> row j = r0 + k \<and> c0 \<le> column j \<and> column j - c0 < length vs
      then store_flagged (Str (vs ! (column j - c0))) else iloc m j)"
    by (rule iloc_write_row [OF Cons.prems])
  have v: "isValid ?m1 j = isValid m j" by simp
  show ?case
  proof (cases "row j = r0 + k")
    case True
    then show ?thesis unfolding split ih m1 v by simp
  next
    case False
    show ?thesis
    proof (cases "r0 + k \<le> row j")
      case True
      with False have s: "row j - (r0 + k) = Suc (row j - (r0 + Suc k))" by simp
      from True False have t: "r0 + Suc k \<le> row j" by simp
      show ?thesis unfolding split ih m1 v using False True t by (simp add: s)
    next
      case False
      then show ?thesis unfolding split ih m1 v by simp
    qed
  qed
qed

lemma iloc_redo_Paste:
  assumes sc: "stores_text m"
  shows "iloc (cmd_redo push (PasteCellsCommand paste_data start_index old_values) m) j
   = (if isValid m j \<and> in_block paste_data start_index j
      then store_flagged (Str (block_value paste_data start_index j)) else iloc m j)"
proof -
  have "iloc (write_all (map (\<lambda>(i, v). (i, Str v))
               (paste_targets (m\<lparr>ignore_undo := True\<rparr>) paste_data start_index))
             (m\<lparr>ignore_undo := True\<rparr>)) j
        = (if isValid m j \<and> in_block paste_data start_index j
      then store_flagged (Str (block_value paste_data start_index j)) else iloc m j)"
    unfolding paste_targets_def model_index_def enumerate_from0_def [of paste_data]
    using iloc_write_rows [of "m\<lparr>ignore_undo := True\<rparr>" "row start_index" "column start_index"
            0 paste_data j] sc
    by (simp add: in_block_def block_value_def conj_ac)
  then show ?thesis by (simp add: cmd_flagged)
qed

lemma enumerate_from0_mem: "i < length xs \<Longrightarrow> (i, xs ! i) \<in> set (enumerate_from0 xs)"
  by (simp add: enumerate_from0_def in_set_zip) (rule exI [of _ i], simp)

lemma enumerate_from0_memD:
  "(i, x) \<in> set (enumerate_from0 xs) \<Longrightarrow> i < length xs \<and> x = xs ! i"
  by (auto simp add: enumerate_from0_def in_set_zip)

lemma paste_targets_keys:
  "j \<in> fst ` set (paste_targets m pd st) \<longleftrightarrow> in_block pd st j"
proof
  assume "j \<in> fst ` set (paste_targets m pd st)"
  then obtain r vs c v where "(r, vs) \<in> set (enumerate_from0 pd)"
    "(c, v) \<in> set (enumerate_from0 vs)" "j = QModelIndex (row st + r) (column st + c)"
    by (auto simp add: paste_targets_def model_index_def)
  then have "r < length pd" "c < length (pd ! r)"
    "j = QModelIndex (row st + r) (column st + c)"
    by (auto dest!: enumerate_from0_memD)
  then show "in_block pd st j" by (simp add: in_block_def)
next
  assume b: "in_block pd st j"
  let ?r = "row j - row st" and ?c = "column j - column st"
  from b have r: "?r < length pd" and c: "?c < length (pd ! ?r)"
    and j: "j = QModelIndex (row st + ?r) (column st + ?c)"
    by (cases j; simp add: in_block_def)+
  have 1: "(?r, pd ! ?r) \<in> set (enumerate_from0 pd)"
    by (rule enumerate_from0_mem [OF r])
  have 2: "(?c, pd ! ?r ! ?c) \<in> set (enumerate_from0 (pd ! ?r))"
    by (rule enumerate_from0_mem [OF c])
  let ?F = "\<lambda>(r, row_values).
        map (\<lambda>(c, v). (model_index m (row st + r) (column st + c), v))
            (enumerate_from0 row_values)"
  have 3: "(j, pd ! ?r ! ?c) \<in> set (?F (?r, pd ! ?r))"
    using 2 j by (force simp add: model_index_def image_iff)
  have "set (?F (?r, pd ! ?r)) \<subseteq> set (concat (map ?F (enumerate_from0 pd)))"
    using 1 by (simp only: set_concat set_map) blast
  with 3 have "(j, pd ! ?r ! ?c) \<in> set (paste_targets m pd st)"
    unfolding paste_targets_def by blast
  then show "j \<in> fst ` set (paste_targets m pd st)" by force
qed










lemma table3_facts [simp]:
  "isValid table3 (QModelIndex r c) = (r < 3 \<and> c < 3)"
  "iloc table3 j = Str (lit ''a'')"
  "nrows table3 = 3" "ncols table3 = 3"
  by (simp_all add: isValid_def rowCount_def columnCount_def iloc_def table3_def)


section \<open>Redo followed by undo\<close>

lemma iloc_undo_Paste:
  assumes sc: "stores_text m"
  shows "iloc (cmd_undo push (PasteCellsCommand_init m0 pd st) m) j
   = (if isValid m j \<and> isValid m0 j \<and> in_block pd st j
      then store_flagged (data m0 j DisplayRole) else iloc m j)"
proof -
  let ?ts = "filter (\<lambda>(i, v). isValid m0 i) (paste_targets m0 pd st)"
  let ?g = "\<lambda>i. if isValid m0 i then data m0 i DisplayRole else NA"
  have g: "map (\<lambda>(i, v). (i, data m0 i DisplayRole)) ?ts = map (\<lambda>i. (i, ?g i)) (map fst ?ts)"
    by (induction "paste_targets m0 pd st") (auto simp add: case_prod_unfold)
  have k: "j \<in> set (map fst ?ts) \<longleftrightarrow> isValid m0 j \<and> in_block pd st j"
    using paste_targets_keys [of j m0 pd st] by (force simp add: image_iff)
  have sc': "stores_text (m\<lparr>ignore_undo := True\<rparr>)" using sc by simp
  have tv: "\<forall>i \<in> set (map fst ?ts). isValid (m\<lparr>ignore_undo := True\<rparr>) i \<longrightarrow> text_value (?g i)"
    by simp
  have e: "iloc (write_all (dict_of (map (\<lambda>i. (i, ?g i)) (map fst ?ts)))
                  (m\<lparr>ignore_undo := True\<rparr>)) j
     = (if isValid m j \<and> isValid m0 j \<and> in_block pd st j
        then store_flagged (data m0 j DisplayRole) else iloc m j)"
    unfolding iloc_write_all_dict [OF sc' tv] k by simp
  show ?thesis
    unfolding PasteCellsCommand_init_def g cmd_undo_Paste iloc_flag e by (rule refl)
qed

lemma rounds_shape [simp]:
  "nrows (rounds c k m) = nrows m" "ncols (rounds c k m) = ncols m"
  by (induction k; simp add: rounds_def)+

lemma isValid_rounds [simp]: "isValid (rounds c k m) j = isValid m j"
  by (simp add: isValid_def rowCount_def columnCount_def)

lemma rounds_Suc: "rounds c (Suc k) m = cmd_undo reentrant_push c (cmd_redo reentrant_push c (rounds c k m))"
  by (simp add: rounds_def)

lemma setitem_rounds [simp]: "setitem (rounds c k m) = setitem m"
  by (induction k) (simp_all add: rounds_def)

lemma rounds_iloc:
  assumes step: "\<And>m' j. isValid m' = isValid m \<Longrightarrow> setitem m' = setitem m \<Longrightarrow>
            iloc (cmd_undo reentrant_push c (cmd_redo reentrant_push c m')) j
            = (if T j then U j else iloc m' j)"
    and k: "0 < k"
  shows "iloc (rounds c k m) j = (if T j then U j else iloc m j)"
  using k
proof (induction k)
  case 0
  then show ?case by simp
next
  case (Suc k)
  have v: "isValid (rounds c k m) = isValid m" by (simp add: fun_eq_iff)
  have s: "setitem (rounds c k m) = setitem m" by simp
  show ?case
  proof (cases "k = 0")
    case True
    then show ?thesis using step [of m j] by (simp add: rounds_Suc rounds_def)
  next
    case False
    with Suc.IH have "iloc (rounds c k m) j = (if T j then U j else iloc m j)" by simp
    then show ?thesis unfolding rounds_Suc step [OF v s] by simp
  qed
qed

lemma rounds_Edit:
  assumes "0 < k" and sc: "stores_text m" and tv: "text_value old" "text_value new"
  shows "iloc (rounds (EditCellCommand i old new) k m) j
     = (if isValid m i \<and> j = i then store_flagged old else iloc m j)"
proof (rule rounds_iloc [OF _ assms(1)])
  fix m' j
  assume v: "isValid m' = isValid m" and s: "setitem m' = setitem m"
  have sc': "stores_text m'" using s sc by (simp add: stores_text_def)
  have sc'': "stores_text (cmd_redo reentrant_push (EditCellCommand i old new) m')"
    using sc' by simp
  show "iloc (cmd_undo reentrant_push (EditCellCommand i old new)
               (cmd_redo reentrant_push (EditCellCommand i old new) m')) j
        = (if isValid m i \<and> j = i then store_flagged old else iloc m' j)"
    unfolding iloc_undo_Edit [OF sc'' tv(1)] iloc_redo_Edit [OF sc' tv(2)]
    using v by simp
qed

lemma rounds_Delete:
  assumes "0 < k" and sc: "stores_text m"
  shows "iloc (rounds (DeleteCellsCommand_init m idxs) k m) j
     = (if isValid m j \<and> j \<in> set idxs then store_flagged (data m j DisplayRole) else iloc m j)"
proof (rule rounds_iloc [OF _ assms(1)])
  fix m' j
  let ?c = "DeleteCellsCommand_init m idxs"
  assume v: "isValid m' = isValid m" and s: "setitem m' = setitem m"
  have sc': "stores_text m'" using s sc by (simp add: stores_text_def)
  have sc'': "stores_text (cmd_redo reentrant_push ?c m')" using sc' by simp
  have v': "isValid (cmd_redo reentrant_push ?c m') = isValid m" using v by (simp add: fun_eq_iff)
  have r: "iloc (cmd_redo reentrant_push ?c m') j
           = (if isValid m' j \<and> j \<in> set idxs then NA else iloc m' j)"
    by (simp add: DeleteCellsCommand_init_def iloc_redo_Delete [OF sc'])
  show "iloc (cmd_undo reentrant_push ?c (cmd_redo reentrant_push ?c m')) j
        = (if isValid m j \<and> j \<in> set idxs then store_flagged (data m j DisplayRole)
           else iloc m' j)"
    unfolding iloc_undo_Delete [OF sc'' v'] r using v by (simp add: fun_eq_iff)
qed

lemma rounds_PasteMultiple:
  assumes "0 < k" and sc: "stores_text m"
  shows "iloc (rounds (PasteMultipleCellsCommand_init m idxs v) k m) j
     = (if isValid m j \<and> j \<in> set idxs then store_flagged (data m j DisplayRole) else iloc m j)"
proof (rule rounds_iloc [OF _ assms(1)])
  fix m' j
  let ?c = "PasteMultipleCellsCommand_init m idxs v"
  assume vl: "isValid m' = isValid m" and s: "setitem m' = setitem m"
  have sc': "stores_text m'" using s sc by (simp add: stores_text_def)
  have sc'': "stores_text (cmd_redo reentrant_push ?c m')" using sc' by simp
  have v': "isValid (cmd_redo reentrant_push ?c m') = isValid m" using vl by (simp add: fun_eq_iff)
  have r: "iloc (cmd_redo reentrant_push ?c m') j
           = (if isValid m' j \<and> j \<in> set idxs then store_flagged (Str v) else iloc m' j)"
    by (simp add: PasteMultipleCellsCommand_init_def iloc_redo_PasteMultiple [OF sc'])
  show "iloc (cmd_undo reentrant_push ?c (cmd_redo reentrant_push ?c m')) j
        = (if isValid m j \<and> j \<in> set idxs then store_flagged (data m j DisplayRole)
           else iloc m' j)"
    unfolding iloc_undo_PasteMultiple [OF sc'' v'] r using vl by (simp add: fun_eq_iff)
qed

lemma rounds_Paste:
  assumes "0 < k" and sc: "stores_text m"
  shows "iloc (rounds (PasteCellsCommand_init m pd st) k m) j
     = (if isValid m j \<and> in_block pd st j then store_flagged (data m j DisplayRole) else iloc m j)"
proof (rule rounds_iloc [OF _ assms(1)])
  fix m' j
  let ?c = "PasteCellsCommand_init m pd st"
  assume v: "isValid m' = isValid m" and s: "setitem m' = setitem m"
  have sc': "stores_text m'" using s sc by (simp add: stores_text_def)
  have sc'': "stores_text (cmd_redo reentrant_push ?c m')" using sc' by simp
  have r: "iloc (cmd_redo reentrant_push ?c m') j
           = (if isValid m' j \<and> in_block pd st j
              then store_flagged (Str (block_value pd st j)) else iloc m' j)"
    by (simp add: PasteCellsCommand_init_def iloc_redo_Paste [OF sc'])
  show "iloc (cmd_undo reentrant_push ?c (cmd_redo reentrant_push ?c m')) j
        = (if isValid m j \<and> in_block pd st j then store_flagged (data m j DisplayRole)
           else iloc m' j)"
    unfolding iloc_undo_Paste [OF sc''] r using v by simp
qed

section \<open>Runs of undo and redo\<close>

lemma stack_same: "undo_stack m = Some st \<Longrightarrow> m\<lparr>undo_stack := Some st\<rparr> = m"
  by (cases m) simp

lemma undo_all_snoc_front:
  "undo_all (c # cs) m = cmd_undo reentrant_push c (undo_all cs m)"
  by (simp add: undo_all_def)

lemma redo_all_snoc:
  "redo_all (cs @ [c]) m = cmd_redo reentrant_push c (redo_all cs m)"
  by (simp add: redo_all_def)

lemma undo_step:
  assumes "undo_stack m = Some st" and "0 < index st" and "index st \<le> length (commands st)"
  shows "QUndoStack_undo m
         = (cmd_undo reentrant_push (commands st ! (index st - 1)) m)
             \<lparr>undo_stack := Some (st\<lparr>index := index st - 1\<rparr>)\<rparr>"
  using assms by (simp add: QUndoStack_undo_def Let_def)

lemma redo_step:
  assumes "undo_stack m = Some st" and "index st < length (commands st)"
  shows "QUndoStack_redo m
         = (cmd_redo reentrant_push (commands st ! index st) m)
             \<lparr>undo_stack := Some (st\<lparr>index := index st + 1\<rparr>)\<rparr>"
  using assms by (simp add: QUndoStack_redo_def Let_def)

lemma undos:
  assumes "undo_stack m = Some st" and "index st \<le> length (commands st)"
  shows "n \<le> index st \<Longrightarrow>
         (QUndoStack_undo ^^ n) m
         = (undo_all (drop (index st - n) (take (index st) (commands st))) m)
             \<lparr>undo_stack := Some (st\<lparr>index := index st - n\<rparr>)\<rparr>"
proof (induction n)
  case 0
  then show ?case using assms(1) by (simp add: undo_all_def stack_same)
next
  case (Suc n)
  let ?cs = "take (index st) (commands st)"
  let ?X = "(undo_all (drop (index st - n) ?cs) m)\<lparr>undo_stack := Some (st\<lparr>index := index st - n\<rparr>)\<rparr>"
  from Suc.prems have n: "n \<le> index st" and lt: "index st - Suc n < index st" by simp_all
  have len: "length ?cs = index st" using assms(2) by simp
  have X: "(QUndoStack_undo ^^ n) m = ?X" using Suc.IH [OF n] .
  have sX: "undo_stack ?X = Some (st\<lparr>index := index st - n\<rparr>)" by simp
  have step: "QUndoStack_undo ?X
      = (cmd_undo reentrant_push (commands st ! (index st - n - 1)) ?X)
          \<lparr>undo_stack := Some (st\<lparr>index := index st - n - 1\<rparr>)\<rparr>"
    using undo_step [OF sX] Suc.prems assms(2) by simp
  have nth: "commands st ! (index st - Suc n) = ?cs ! (index st - Suc n)"
    using lt by simp
  have dr: "drop (index st - Suc n) ?cs = ?cs ! (index st - Suc n) # drop (index st - n) ?cs"
    using Cons_nth_drop_Suc [of "index st - Suc n" ?cs] lt len Suc.prems
    by (simp add: Suc_diff_Suc)
  show ?case
    unfolding funpow.simps comp_def X step dr undo_all_snoc_front
    by (simp add: cmd_undo_stack_upd nth)
qed

lemma redos:
  assumes "undo_stack m = Some st"
  shows "index st + n \<le> length (commands st) \<Longrightarrow>
         (QUndoStack_redo ^^ n) m
         = (redo_all (take n (drop (index st) (commands st))) m)
             \<lparr>undo_stack := Some (st\<lparr>index := index st + n\<rparr>)\<rparr>"
proof (induction n)
  case 0
  then show ?case using assms(1) by (simp add: redo_all_def stack_same)
next
  case (Suc n)
  let ?cs = "drop (index st) (commands st)"
  let ?X = "(redo_all (take n ?cs) m)\<lparr>undo_stack := Some (st\<lparr>index := index st + n\<rparr>)\<rparr>"
  from Suc.prems have n: "index st + n \<le> length (commands st)"
    and lt: "index st + n < length (commands st)" by simp_all
  have X: "(QUndoStack_redo ^^ n) m = ?X" using Suc.IH [OF n] .
  have sX: "undo_stack ?X = Some (st\<lparr>index := index st + n\<rparr>)" by simp
  have step: "QUndoStack_redo ?X
      = (cmd_redo reentrant_push (commands st ! (index st + n)) ?X)
          \<lparr>undo_stack := Some (st\<lparr>index := index st + n + 1\<rparr>)\<rparr>"
    using redo_step [OF sX] lt by simp
  have tk: "take (Suc n) ?cs = take n ?cs @ [commands st ! (index st + n)]"
    using take_Suc_conv_app_nth [of n ?cs] lt by simp
  show ?case
    unfolding funpow.simps comp_def X step tk redo_all_snoc
    by (simp add: cmd_redo_stack_upd)
qed

section \<open>Sequences of edits\<close>

lemma stores_text_rounds [simp]:
  "stores_text (rounds c k m) = stores_text m"
  by (simp add: stores_text_def)

lemma setitem_redo_all [simp]: "setitem (redo_all cs m) = setitem m"
  unfolding redo_all_def by (induction cs arbitrary: m) simp_all

lemma setitem_undo_all [simp]: "setitem (undo_all cs m) = setitem m"
proof -
  have "setitem (fold (cmd_undo reentrant_push) xs m) = setitem m" for xs
    by (induction xs arbitrary: m) simp_all
  then show ?thesis by (simp add: undo_all_def)
qed

lemma isValid_redo_all [simp]: "isValid (redo_all cs m) = isValid m"
  unfolding redo_all_def by (induction cs arbitrary: m) (simp_all add: fun_eq_iff)

lemma isValid_undo_all [simp]: "isValid (undo_all cs m) = isValid m"
proof -
  have "isValid (fold (cmd_undo reentrant_push) xs m) = isValid m" for xs
    by (induction xs arbitrary: m) (simp_all add: fun_eq_iff)
  then show ?thesis by (simp add: undo_all_def)
qed

lemma redo_all_Cons: "redo_all (c # cs) m = redo_all cs (cmd_redo reentrant_push c m)"
  by (simp add: redo_all_def)

lemma targets_Cons:
  "targets V (EditCellCommand i old new # cs) = (if V i then insert i (targets V cs) else targets V cs)"
  by (auto simp add: targets_def)

lemma redo_all_agree:
  assumes "\<forall>c \<in> set cs. is_edit c" and "isValid X = isValid Y"
    and "\<forall>j. j \<in> A \<or> j \<in> targets (isValid Y) cs \<or> iloc X j = iloc Y j"
    and "stores_text X" and "stores_text Y"
  shows "j \<in> A \<or> iloc (redo_all cs X) j = iloc (redo_all cs Y) j"
  using assms
proof (induction cs arbitrary: X Y)
  case Nil
  then show ?case by (simp add: redo_all_def targets_def)
next
  case (Cons c cs)
  from Cons.prems(1) obtain i old new where c: "c = EditCellCommand i old new"
    and tv: "text_value new"
    by (cases c) simp_all
  let ?X = "cmd_redo reentrant_push c X" and ?Y = "cmd_redo reentrant_push c Y"
  have v: "isValid ?X = isValid ?Y" using Cons.prems(2) by (simp add: fun_eq_iff)
  have vY: "isValid ?Y = isValid Y" by (simp add: fun_eq_iff)
  have sX: "stores_text ?X" and sY: "stores_text ?Y"
    using Cons.prems(4,5) by simp_all
  note rX = iloc_redo_Edit [OF Cons.prems(4) tv] and rY = iloc_redo_Edit [OF Cons.prems(5) tv]
  have a: "\<forall>j. j \<in> A \<or> j \<in> targets (isValid ?Y) cs \<or> iloc ?X j = iloc ?Y j"
  proof
    fix j
    from Cons.prems(3) have "j \<in> A \<or> j \<in> targets (isValid Y) (c # cs) \<or> iloc X j = iloc Y j"
      by simp
    then show "j \<in> A \<or> j \<in> targets (isValid ?Y) cs \<or> iloc ?X j = iloc ?Y j"
      unfolding vY unfolding c targets_Cons rX rY Cons.prems(2)
      by (auto split: if_splits)
  qed
  from Cons.prems(1) have e: "\<forall>c \<in> set cs. is_edit c" by simp
  show ?case unfolding redo_all_Cons by (rule Cons.IH [OF e v a sX sY])
qed

lemma undo_all_untouched:
  assumes "\<forall>c \<in> set cs. is_edit c" and sc: "stores_text m"
  shows "j \<in> targets (isValid m) cs \<or> iloc (undo_all cs m) j = iloc m j"
  using assms(1)
proof (induction cs)
  case Nil
  then show ?case by (simp add: undo_all_def)
next
  case (Cons c cs)
  from Cons.prems obtain i old new where c: "c = EditCellCommand i old new"
    and tv: "text_value old"
    by (cases c) simp_all
  from Cons.prems have e: "\<forall>c \<in> set cs. is_edit c" by simp
  have iv: "isValid (undo_all cs m) i = isValid m i" by simp
  have su: "stores_text (undo_all cs m)" using sc by (simp add: stores_text_def)
  show ?case
    using Cons.IH [OF e]
    unfolding undo_all_snoc_front c targets_Cons iloc_undo_Edit [OF su tv] iv
    by (auto split: if_splits)
qed

lemma redo_undo_all:
  assumes e: "\<forall>c \<in> set cs. is_edit c"
    and r: "\<forall>j. iloc (redo_all cs m) j = iloc m j"
    and sc: "stores_text m"
  shows "iloc (redo_all cs (undo_all cs m)) j = iloc m j"
proof -
  have "\<forall>j. j \<in> {} \<or> j \<in> targets (isValid m) cs \<or> iloc (undo_all cs m) j = iloc m j"
    using undo_all_untouched [OF e sc] by blast
  moreover have "stores_text (undo_all cs m)" using sc by (simp add: stores_text_def)
  ultimately have "j \<in> {} \<or> iloc (redo_all cs (undo_all cs m)) j = iloc (redo_all cs m) j"
    by (rule redo_all_agree [OF e isValid_undo_all _ _ sc])
  then show ?thesis using r by simp
qed

lemma redo_all_stack_upd:
  "redo_all cs (m\<lparr>undo_stack := s\<rparr>) = (redo_all cs m)\<lparr>undo_stack := s\<rparr>"
  unfolding redo_all_def by (induction cs arbitrary: m) (simp_all add: cmd_redo_stack_upd)

lemma isValid_push_fun: "isValid (QUndoStack_push c m) = isValid m"
  by (simp add: fun_eq_iff)

lemma flag_push: "ignore_undo (QUndoStack_push c m) = False"
  by (simp add: QUndoStack_push_def Let_def)

lemma commands_record:
  "\<exists>d. commands (record_command c st) = drop d (take (index st) (commands st) @ [c])"
proof -
  define cmds where "cmds = take (index st) (commands st) @ [c]"
  define d where "d = (if undo_limit st = 0 \<or> length cmds \<le> undo_limit st then 0
                       else length cmds - undo_limit st)"
  have "commands (record_command c st) = drop d cmds"
    unfolding record_command_def Let_def d_def cmds_def by simp
  then show ?thesis unfolding cmds_def by blast
qed

lemma text_frame_push:
  assumes "text_frame m" and "text_value new"
  shows "text_frame (QUndoStack_push (EditCellCommand i old new) m)"
proof -
  from assms(1) have st: "stores_text m" and tc: "\<And>p. text_value (cells m p)"
    unfolding text_frame_def by blast+
  have "cells (QUndoStack_push (EditCellCommand i old new) m)
        = cells (write_cell (m\<lparr>ignore_undo := True\<rparr>) i new)"
    by (simp add: QUndoStack_push_def Let_def cmd_flagged)
  also have "\<dots> = (if isValid m i then (cells m)((row i, column i) := store_flagged new)
                   else cells m)"
    using st assms(2) by (simp add: write_cell_cells)
  finally show ?thesis
    unfolding text_frame_def using st tc assms(2) by simp
qed

lemma replayable_push:
  assumes r: "replayable m" and tv: "text_value old" "text_value new"
  shows "replayable (QUndoStack_push (EditCellCommand i old new) m)"
proof -
  let ?c = "EditCellCommand i old new"
  let ?m = "QUndoStack_push ?c m"
  from r have tf: "text_frame m" unfolding replayable_def by blast
  then have sc: "stores_text m" unfolding text_frame_def by blast
  have tf': "text_frame ?m" by (rule text_frame_push [OF tf tv(2)])
  have sc': "stores_text ?m" using sc by simp
  from r obtain st where st: "undo_stack m = Some st" and top: "index st = length (commands st)"
    and e: "\<forall>c \<in> set (commands st). is_edit c"
    and inv: "\<And>k j. iloc (redo_all (drop k (commands st)) m) j = iloc m j"
    unfolding replayable_def by blast
  let ?st = "record_command ?c st"
  have s: "undo_stack ?m = Some ?st" by (rule stack_push [OF st])
  have t: "index ?st = length (commands ?st)"
    using record_command_top(1) [of st ?c] top by simp
  from commands_record [of ?c st] top obtain d
    where d: "commands ?st = drop d (commands st @ [?c])" by auto
  have e': "\<forall>c \<in> set (commands ?st). is_edit c"
  proof
    fix c assume "c \<in> set (commands ?st)"
    then have "c \<in> set (commands st @ [?c])" unfolding d by (rule in_set_dropD)
    then show "is_edit c" using e tv by auto
  qed
  note rE = iloc_redo_Edit [OF sc tv(2)]
  have suffix: "iloc (redo_all (drop k (commands st @ [?c])) ?m) j = iloc ?m j" for k j
  proof (cases "k \<le> length (commands st)")
    case True
    let ?S = "drop k (commands st)"
    have eS: "\<forall>c \<in> set ?S. is_edit c" using e by (auto dest: in_set_dropD)
    have dr: "drop k (commands st @ [?c]) = ?S @ [?c]" using True by simp
    have a: "\<forall>j. j \<in> {j. isValid m i \<and> j = i} \<or> j \<in> targets (isValid m) ?S \<or> iloc ?m j = iloc m j"
      by (simp add: rE)
    have g: "j \<in> {j. isValid m i \<and> j = i} \<or> iloc (redo_all ?S ?m) j = iloc (redo_all ?S m) j"
      by (rule redo_all_agree [OF eS isValid_push_fun a sc' sc])
    have v: "isValid (redo_all ?S ?m) i = isValid m i" by simp
    have sS: "stores_text (redo_all ?S ?m)" using sc by (simp add: stores_text_def)
    show ?thesis
      unfolding dr redo_all_snoc iloc_redo_Edit [OF sS tv(2)] v
      using g inv [of k j] by (auto simp add: rE)
  next
    case False
    then show ?thesis by (simp add: redo_all_def)
  qed
  have inv': "iloc (redo_all (drop k (commands ?st)) ?m) j = iloc ?m j" for k j
    unfolding d drop_drop by (rule suffix)
  have f: "\<not> ignore_undo ?m" by (simp add: flag_push)
  show ?thesis unfolding replayable_def using tf' f s t e' inv' by blast
qed

lemma replayable_setData:
  assumes "replayable m" and tv: "text_value v"
  shows "replayable (fst (setData m i v r))"
proof -
  from assms(1) obtain st where st: "undo_stack m = Some st" and f: "\<not> ignore_undo m"
    and tf: "text_frame m"
    unfolding replayable_def by blast
  have old: "text_value (iloc m i)" using tf by (simp add: text_frame_def iloc_def)
  have new: "text_value (new_value_of v)" using tv by simp
  show ?thesis
    using assms(1) f st replayable_push [OF assms(1) old new]
    by (simp add: setData_def setData_via_def Let_def)
qed

lemma replayable_edit_cells:
  "replayable m \<Longrightarrow> list_all (\<lambda>(i, v). text_value v) es \<Longrightarrow> replayable (edit_cells es m)"
  unfolding edit_cells_def
  by (induction es arbitrary: m) (simp_all add: replayable_setData case_prod_unfold)

lemma replayable_empty:
  assumes "undo_stack m = Some st" and "commands st = []" and "index st = 0"
    and "\<not> ignore_undo m" and "text_frame m"
  shows "replayable m"
  unfolding replayable_def using assms by (simp add: redo_all_def)

lemma replay:
  assumes r: "replayable m" and st: "undo_stack m = Some st" and n: "n \<le> index st"
  shows "iloc ((QUndoStack_redo ^^ n) ((QUndoStack_undo ^^ n) m)) j = iloc m j"
    and "undo_stack ((QUndoStack_redo ^^ n) ((QUndoStack_undo ^^ n) m)) = undo_stack m"
proof -
  from r have sc: "stores_text m" unfolding replayable_def text_frame_def by blast
  from r st have top: "index st = length (commands st)"
    and e: "\<forall>c \<in> set (commands st). is_edit c"
    and inv: "\<And>k j. iloc (redo_all (drop k (commands st)) m) j = iloc m j"
    unfolding replayable_def by auto
  let ?S = "drop (index st - n) (commands st)"
  let ?st = "st\<lparr>index := index st - n\<rparr>"
  let ?U = "(undo_all ?S m)\<lparr>undo_stack := Some ?st\<rparr>"
  have le: "index st \<le> length (commands st)" using top by simp
  have U: "(QUndoStack_undo ^^ n) m = ?U"
    using undos [OF st le n] top by simp
  have sU: "undo_stack ?U = Some ?st" by simp
  have b: "index ?st + n \<le> length (commands ?st)" using n top by simp
  have tk: "take n (drop (index ?st) (commands ?st)) = ?S" using n top by simp
  have idx: "st\<lparr>index := index st - n\<rparr>\<lparr>index := index ?st + n\<rparr> = st" using n by simp
  have R: "(QUndoStack_redo ^^ n) ?U
           = (redo_all ?S ?U)\<lparr>undo_stack := Some st\<rparr>"
    using redos [OF sU b] unfolding tk idx .
  have eS: "\<forall>c \<in> set ?S. is_edit c" using e by (auto dest: in_set_dropD)
  have iS: "\<forall>j. iloc (redo_all ?S m) j = iloc m j" using inv by simp
  show "iloc ((QUndoStack_redo ^^ n) ((QUndoStack_undo ^^ n) m)) j = iloc m j"
    unfolding U R redo_all_stack_upd
    by (simp add: redo_undo_all [OF eS iS sc])
  show "undo_stack ((QUndoStack_redo ^^ n) ((QUndoStack_undo ^^ n) m)) = undo_stack m"
    unfolding U R by (simp add: st)
qed

lemma restored_edit:
  assumes v: "\<And>j. isValid m' j = isValid m j"
    and i: "\<And>j. iloc m' j = (if isValid m i \<and> j = i then store_flagged (iloc m i) else iloc m j)"
  shows "data m j DisplayRole \<noteq> Str FIELD_NONE \<Longrightarrow> data m' j DisplayRole = data m j DisplayRole"
    and "iloc m j = NA \<or> (\<exists>s. iloc m j = Str s \<and> s \<noteq> [] \<and> s \<noteq> FIELD_NONE) \<Longrightarrow>
         iloc m' j = iloc m j"
proof -
  show "data m' j DisplayRole = data m j DisplayRole"
    if "data m j DisplayRole \<noteq> Str FIELD_NONE"
  proof (cases "isValid m j")
    case True
    then show ?thesis using that
      by (cases "j = i") (auto simp add: data_valid v i store_flagged_def)
  next
    case False
    then show ?thesis by (simp add: data_invalid v)
  qed
  show "iloc m' j = iloc m j"
    if "iloc m j = NA \<or> (\<exists>s. iloc m j = Str s \<and> s \<noteq> [] \<and> s \<noteq> FIELD_NONE)"
    using that by (auto simp add: i store_flagged_def)
qed

lemma setData_edit_push:
  assumes "isValid m i" and "\<not> ignore_undo m" and "undo_stack m = Some st"
    and "values_differ m (iloc m i) (new_value_of v)"
  shows "fst (setData m i v EditRole)
         = QUndoStack_push (EditCellCommand i (iloc m i) (new_value_of v)) m"
  using assms by (simp add: setData_def setData_via_def Let_def)

text \<open>
  Claim C4, as amended, for text frames. (a) For each of the four commands as the program
  builds them on a table (an edit to a text value, a deletion, a block paste, a paste of
  one value), redo followed by undo, repeated any positive number of times, leaves every
  cell outside the command's valid targets as it was and gives every valid target the
  value that \<open>setData\<close> stores under the flag for the remembered old value: the cell's own
  value for an edit, the text that \<open>data\<close> showed for the other three commands. Hence a
  cell that held the missing value or a non-empty string other than the marker holds
  exactly that value again, and the displayed text of every cell is restored unless that
  text was the marker. (b) From a table with an empty history, after any sequence of edits
  of cells to text values through \<open>setData\<close> and for any \<open>n\<close> up to the index of the
  history, \<open>n\<close> undos followed by \<open>n\<close> redos give back every cell of the table and the
  history as they were before the undos.
\<close>

theorem C4_redo_undo_rounds_and_replay:
  assumes "0 < k"
    and "c \<in> {EditCellCommand i (iloc m i) new, DeleteCellsCommand_init m idxs,
              PasteCellsCommand_init m paste_data start_index,
              PasteMultipleCellsCommand_init m idxs value}"
    and "undo_stack m0 = Some st0" and "commands st0 = []" and "index st0 = 0"
    and "\<not> ignore_undo m0"
    and "undo_stack (edit_cells es m0) = Some st" and "n \<le> index st"
    and tf: "text_frame m" and tn: "text_value new"
    and tf0: "text_frame m0" and te: "list_all (\<lambda>(i, v). text_value v) es"
  shows "(\<forall>j. iloc (rounds (EditCellCommand i (iloc m i) new) k m) j
               = (if isValid m i \<and> j = i then store_flagged (iloc m i) else iloc m j))
       \<and> (\<forall>j. iloc (rounds (DeleteCellsCommand_init m idxs) k m) j
               = (if isValid m j \<and> j \<in> set idxs then store_flagged (data m j DisplayRole)
                  else iloc m j))
       \<and> (\<forall>j. iloc (rounds (PasteCellsCommand_init m paste_data start_index) k m) j
               = (if isValid m j \<and> in_block paste_data start_index j
                  then store_flagged (data m j DisplayRole) else iloc m j))
       \<and> (\<forall>j. iloc (rounds (PasteMultipleCellsCommand_init m idxs value) k m) j
               = (if isValid m j \<and> j \<in> set idxs then store_flagged (data m j DisplayRole)
                  else iloc m j))
       \<and> (\<forall>j. iloc m j = NA \<or> (\<exists>s. iloc m j = Str s \<and> s \<noteq> [] \<and> s \<noteq> FIELD_NONE) \<longrightarrow>
               iloc (rounds c k m) j = iloc m j)
       \<and> (\<forall>j. data m j DisplayRole \<noteq> Str FIELD_NONE \<longrightarrow>
               data (rounds c k m) j DisplayRole = data m j DisplayRole)
       \<and> (\<forall>j. iloc ((QUndoStack_redo ^^ n) ((QUndoStack_undo ^^ n) (edit_cells es m0))) j
               = iloc (edit_cells es m0) j)
       \<and> undo_stack ((QUndoStack_redo ^^ n) ((QUndoStack_undo ^^ n) (edit_cells es m0)))
           = Some st"
proof -
  note k = assms(1)
  from tf have sc: "stores_text m" and to: "text_value (iloc m i)"
    by (simp_all add: text_frame_def iloc_def)
  let ?E = "EditCellCommand i (iloc m i) new"
  let ?D = "DeleteCellsCommand_init m idxs"
  let ?P = "PasteCellsCommand_init m paste_data start_index"
  let ?M = "PasteMultipleCellsCommand_init m idxs value"
  have 1: "iloc (rounds ?E k m) j
             = (if isValid m i \<and> j = i then store_flagged (iloc m i) else iloc m j)" for j
    by (rule rounds_Edit [OF k sc to tn])
  have 2: "iloc (rounds ?D k m) j
             = (if isValid m j \<and> j \<in> set idxs then store_flagged (data m j DisplayRole)
                else iloc m j)" for j
    by (rule rounds_Delete [OF k sc])
  have 3: "iloc (rounds ?P k m) j
             = (if isValid m j \<and> in_block paste_data start_index j
                then store_flagged (data m j DisplayRole) else iloc m j)" for j
    by (rule rounds_Paste [OF k sc])
  have blk: "iloc (rounds ?P k m) j
             = (if isValid m j \<and> j \<in> {j. in_block paste_data start_index j}
                then store_flagged (data m j DisplayRole) else iloc m j)" for j
    by (simp add: 3)
  have 4: "iloc (rounds ?M k m) j
             = (if isValid m j \<and> j \<in> set idxs then store_flagged (data m j DisplayRole)
                else iloc m j)" for j
    by (rule rounds_PasteMultiple [OF k sc])
  have v: "isValid (rounds c' k m) j = isValid m j" for c' j by simp
  note fE = restored_edit [of "rounds ?E k m" m i, OF v 1]
  note fD = restored_facts(1,2) [of "rounds ?D k m" m "set idxs", OF v 2]
  note fP = restored_facts(1,2) [of "rounds ?P k m" m "{j. in_block paste_data start_index j}",
      OF v blk]
  note fM = restored_facts(1,2) [of "rounds ?M k m" m "set idxs", OF v 4]
  from assms(2) have c: "c = ?E \<or> c = ?D \<or> c = ?P \<or> c = ?M" by simp
  have 5: "iloc (rounds c k m) j = iloc m j"
    if "iloc m j = NA \<or> (\<exists>s. iloc m j = Str s \<and> s \<noteq> [] \<and> s \<noteq> FIELD_NONE)" for j
    using c fE(2) [OF that] fD(2) [OF that] fP(2) [OF that] fM(2) [OF that] by metis
  have 6: "data (rounds c k m) j DisplayRole = data m j DisplayRole"
    if "data m j DisplayRole \<noteq> Str FIELD_NONE" for j
    using c fE(1) [OF that] fD(1) [OF that] fP(1) [OF that] fM(1) [OF that] by metis
  have r: "replayable (edit_cells es m0)"
    by (rule replayable_edit_cells [OF replayable_empty [OF assms(3-6) tf0] te])
  note b = replay [OF r assms(7,8)]
  have 7: "iloc ((QUndoStack_redo ^^ n) ((QUndoStack_undo ^^ n) (edit_cells es m0))) j
             = iloc (edit_cells es m0) j" for j
    by (rule b(1))
  have 8: "undo_stack ((QUndoStack_redo ^^ n) ((QUndoStack_undo ^^ n) (edit_cells es m0))) = Some st"
    using b(2) assms(7) by simp
  show ?thesis
    apply (intro conjI allI impI)
           apply (rule 1)
          apply (rule 2)
         apply (rule 3)
        apply (rule 4)
       apply (erule 5)
      apply (erule 6)
     apply (rule 7)
    apply (rule 8)
    done
qed

lemma new_value_of_Str [simp]: "s \<noteq> [] \<Longrightarrow> new_value_of (Str s) = Str s"
  by (simp add: new_value_of_def pd_isna_def)

lemma lit_b_nonempty [simp]:
  "lit ''b'' \<noteq> []" "lit ''a'' \<noteq> lit ''b''" "[] \<noteq> lit ''a''" "[] \<noteq> lit ''b''"
  by (simp_all add: lit_def)

lemma table0_flag [simp]: "\<not> ignore_undo table0"
  by (simp add: table0_def)

lemma two_edits:
  defines "c1 \<equiv> EditCellCommand (QModelIndex 0 2) (Str (lit ''a'')) (Str (lit ''b''))"
    and "c2 \<equiv> EditCellCommand (QModelIndex 0 0) (Str []) (Str (lit ''a''))"
  shows "edit_cells [(QModelIndex 0 2, Str (lit ''b'')), (QModelIndex 0 0, Str (lit ''a''))] table0
         = QUndoStack_push c2 (QUndoStack_push c1 table0)"
    and "undo_stack (QUndoStack_push c2 (QUndoStack_push c1 table0))
         = Some \<lparr>commands = [c1, c2], index = 2, undo_limit = 50\<rparr>"
    and "iloc (QUndoStack_push c2 (QUndoStack_push c1 table0)) (QModelIndex 0 2) = Str (lit ''b'')"
    and "iloc (QUndoStack_push c2 (QUndoStack_push c1 table0)) (QModelIndex 0 0) = Str (lit ''a'')"
proof -
  let ?m1 = "QUndoStack_push c1 table0"
  have d1: "values_differ table0 (iloc table0 (QModelIndex 0 2)) (new_value_of (Str (lit ''b'')))"
    by (simp add: values_differ_def py_ne_def pd_isna_def)
  have e1: "fst (setData table0 (QModelIndex 0 2) (Str (lit ''b'')) EditRole) = ?m1"
    using setData_edit_push [OF _ table0_flag table0_stack d1] by (simp add: c1_def)
  have s1: "undo_stack ?m1
            = Some (record_command c1 \<lparr>commands = [], index = 0, undo_limit = 50\<rparr>)"
    by (rule stack_push [OF table0_stack])
  have f1: "\<not> ignore_undo ?m1" by (simp add: flag_push)
  have v1: "isValid ?m1 (QModelIndex 0 0)" by simp
  have i1: "iloc ?m1 (QModelIndex 0 0) = Str []"
    by (simp add: c1_def iloc_redo_Edit)
  have d2: "values_differ ?m1 (iloc ?m1 (QModelIndex 0 0)) (new_value_of (Str (lit ''a'')))"
    unfolding i1 by (simp add: values_differ_def py_ne_def pd_isna_def)
  have e2: "fst (setData ?m1 (QModelIndex 0 0) (Str (lit ''a'')) EditRole) = QUndoStack_push c2 ?m1"
    using setData_edit_push [OF v1 f1 s1 d2] unfolding i1 by (simp add: c2_def)
  show "edit_cells [(QModelIndex 0 2, Str (lit ''b'')), (QModelIndex 0 0, Str (lit ''a''))] table0
         = QUndoStack_push c2 ?m1"
    by (simp add: edit_cells_def e1 e2)
  show "undo_stack (QUndoStack_push c2 ?m1)
         = Some \<lparr>commands = [c1, c2], index = 2, undo_limit = 50\<rparr>"
    by (simp add: stack_push [OF s1] record_command_def)
  show "iloc (QUndoStack_push c2 ?m1) (QModelIndex 0 2) = Str (lit ''b'')"
    by (simp add: c1_def c2_def iloc_redo_Edit store_flagged_def)
  show "iloc (QUndoStack_push c2 ?m1) (QModelIndex 0 0) = Str (lit ''a'')"
    by (simp add: c1_def c2_def iloc_redo_Edit store_flagged_def)
qed

theorem C4_redo_undo_rounds_and_replay_witness:
  "0 < (2::nat)
   \<and> undo_stack table0 = Some \<lparr>commands = [], index = 0, undo_limit = 50\<rparr>
   \<and> \<not> ignore_undo table0
   \<and> text_frame table0
   \<and> text_value (Str (lit ''b''))
   \<and> list_all (\<lambda>(i, v). text_value v)
        [(QModelIndex 0 2, Str (lit ''b'')), (QModelIndex 0 0, Str (lit ''a''))]
   \<and> undo_stack (edit_cells [(QModelIndex 0 2, Str (lit ''b'')), (QModelIndex 0 0, Str (lit ''a''))]
                   table0)
      = Some \<lparr>commands = [EditCellCommand (QModelIndex 0 2) (Str (lit ''a'')) (Str (lit ''b'')),
                           EditCellCommand (QModelIndex 0 0) (Str []) (Str (lit ''a''))],
               index = 2, undo_limit = 50\<rparr>
   \<and> iloc (rounds (EditCellCommand (QModelIndex 0 2) (Str (lit ''a'')) (Str (lit ''b''))) 2 table0)
        (QModelIndex 0 2) = Str (lit ''a'')
   \<and> map (iloc ((QUndoStack_redo ^^ 2) ((QUndoStack_undo ^^ 2)
             (edit_cells [(QModelIndex 0 2, Str (lit ''b'')), (QModelIndex 0 0, Str (lit ''a''))]
                table0))))
         [QModelIndex 0 0, QModelIndex 0 2]
      = [Str (lit ''a''), Str (lit ''b'')]
   \<and> undo_stack ((QUndoStack_redo ^^ 2) ((QUndoStack_undo ^^ 2)
             (edit_cells [(QModelIndex 0 2, Str (lit ''b'')), (QModelIndex 0 0, Str (lit ''a''))]
                table0)))
      = Some \<lparr>commands = [EditCellCommand (QModelIndex 0 2) (Str (lit ''a'')) (Str (lit ''b'')),
                           EditCellCommand (QModelIndex 0 0) (Str []) (Str (lit ''a''))],
               index = 2, undo_limit = 50\<rparr>"
proof -
  let ?es = "[(QModelIndex 0 2, Str (lit ''b'')), (QModelIndex 0 0, Str (lit ''a''))]"
  let ?c1 = "EditCellCommand (QModelIndex 0 2) (Str (lit ''a'')) (Str (lit ''b''))"
  let ?c2 = "EditCellCommand (QModelIndex 0 0) (Str []) (Str (lit ''a''))"
  let ?st = "\<lparr>commands = [?c1, ?c2], index = 2, undo_limit = 50\<rparr>"
  let ?init = "\<lparr>commands = [], index = 0, undo_limit = 50\<rparr>"
  have k: "0 < (2::nat)" by simp
  have c: "EditCellCommand (QModelIndex 0 2) (iloc table0 (QModelIndex 0 2)) (Str (lit ''b''))
           \<in> {EditCellCommand (QModelIndex 0 2) (iloc table0 (QModelIndex 0 2)) (Str (lit ''b'')),
               DeleteCellsCommand_init table0 [QModelIndex 0 2],
               PasteCellsCommand_init table0 [[lit ''b'']] (QModelIndex 0 2),
               PasteMultipleCellsCommand_init table0 [QModelIndex 0 2] (lit ''b'')}"
    by blast
  have e: "commands ?init = []" "index ?init = 0" by simp_all
  have s: "undo_stack (edit_cells ?es table0) = Some ?st"
    unfolding two_edits(1) by (rule two_edits(2))
  have n: "2 \<le> index ?st" by simp
  have tb: "text_value (Str (lit ''b''))" by simp
  have te: "list_all (\<lambda>(i, v). text_value v) ?es" by simp
  note th = C4_redo_undo_rounds_and_replay [OF k c table0_stack e table0_flag s n
      table0_stores(2) tb table0_stores(2) te]
  from th have 1: "iloc (rounds (EditCellCommand (QModelIndex 0 2) (iloc table0 (QModelIndex 0 2))
                            (Str (lit ''b''))) 2 table0) j
               = (if isValid table0 (QModelIndex 0 2) \<and> j = QModelIndex 0 2
                  then store_flagged (iloc table0 (QModelIndex 0 2)) else iloc table0 j)" for j
    by blast
  from th have 2: "iloc ((QUndoStack_redo ^^ 2) ((QUndoStack_undo ^^ 2) (edit_cells ?es table0))) j
               = iloc (edit_cells ?es table0) j" for j
    by blast
  from th have 3: "undo_stack ((QUndoStack_redo ^^ 2) ((QUndoStack_undo ^^ 2)
                     (edit_cells ?es table0))) = Some ?st"
    by blast
  have 4: "iloc (rounds ?c1 2 table0) (QModelIndex 0 2) = Str (lit ''a'')"
    using 1 [of "QModelIndex 0 2"] by (simp add: store_flagged_def)
  have 5: "map (iloc ((QUndoStack_redo ^^ 2) ((QUndoStack_undo ^^ 2) (edit_cells ?es table0))))
             [QModelIndex 0 0, QModelIndex 0 2] = [Str (lit ''a''), Str (lit ''b'')]"
    unfolding list.map 2 unfolding two_edits(1) two_edits(3) two_edits(4) by simp
  show ?thesis using k table0_stack table0_flag table0_stores(2) tb te s 3 4 5 by blast
qed

text \<open>
  Claim C4 as stated fails. The first cell of the table holds the empty string, the second
  the marker text. An edit of each, as \<open>setData\<close> builds it, is redone and then undone: the
  first cell then holds the missing value, not the empty string it held, and the second
  cell holds the missing value and shows as blank.
\<close>

theorem C4_counterexample:
  "isValid table0 (QModelIndex 0 0) \<and> isValid table0 (QModelIndex 0 1)
   \<and> fst (setData table0 (QModelIndex 0 0) (Str (lit ''b'')) EditRole)
       = QUndoStack_push (EditCellCommand (QModelIndex 0 0) (Str []) (Str (lit ''b''))) table0
   \<and> iloc table0 (QModelIndex 0 0) = Str []
   \<and> iloc (cmd_undo reentrant_push (EditCellCommand (QModelIndex 0 0) (Str []) (Str (lit ''b'')))
            (cmd_redo reentrant_push (EditCellCommand (QModelIndex 0 0) (Str []) (Str (lit ''b'')))
               table0)) (QModelIndex 0 0) = NA
   \<and> iloc (rounds (EditCellCommand (QModelIndex 0 0) (Str []) (Str (lit ''b''))) 3 table0)
        (QModelIndex 0 0) = NA
   \<and> fst (setData table0 (QModelIndex 0 1) (Str (lit ''b'')) EditRole)
       = QUndoStack_push (EditCellCommand (QModelIndex 0 1) (Str FIELD_NONE) (Str (lit ''b''))) table0
   \<and> data table0 (QModelIndex 0 1) DisplayRole = Str FIELD_NONE
   \<and> data (rounds (EditCellCommand (QModelIndex 0 1) (Str FIELD_NONE) (Str (lit ''b''))) 1 table0)
        (QModelIndex 0 1) DisplayRole = Str []"
proof -
  have d0: "values_differ table0 (iloc table0 (QModelIndex 0 0)) (new_value_of (Str (lit ''b'')))"
    by (simp add: values_differ_def py_ne_def pd_isna_def)
  have d1: "values_differ table0 (iloc table0 (QModelIndex 0 (Suc 0))) (new_value_of (Str (lit ''b'')))"
    by (simp add: values_differ_def py_ne_def pd_isna_def)
  have 1: "fst (setData table0 (QModelIndex 0 0) (Str (lit ''b'')) EditRole)
       = QUndoStack_push (EditCellCommand (QModelIndex 0 0) (Str []) (Str (lit ''b''))) table0"
    using setData_edit_push [OF _ table0_flag table0_stack d0] by simp
  have 2: "fst (setData table0 (QModelIndex 0 (Suc 0)) (Str (lit ''b'')) EditRole)
       = QUndoStack_push (EditCellCommand (QModelIndex 0 (Suc 0)) (Str FIELD_NONE) (Str (lit ''b'')))
           table0"
    using setData_edit_push [OF _ table0_flag table0_stack d1] by simp
  have 3: "iloc (rounds (EditCellCommand (QModelIndex 0 (Suc 0)) (Str FIELD_NONE) (Str (lit ''b''))) (Suc 0)
             table0) (QModelIndex 0 (Suc 0)) = NA"
    by (simp add: rounds_Edit store_flagged_def)
  have 4: "data (rounds (EditCellCommand (QModelIndex 0 (Suc 0)) (Str FIELD_NONE) (Str (lit ''b''))) (Suc 0)
             table0) (QModelIndex 0 (Suc 0)) DisplayRole = Str []"
    by (simp add: data_valid 3)
  show ?thesis
    using 1 2 4
    by (simp add: rounds_Edit iloc_redo_Edit iloc_undo_Edit)
qed

end
